theory Spec2Isabelle
  imports Main "HOL-Library.Sublist" "HOL-Library.Char_ord" "HOL-Library.List_Lexorder"
    "HOL-Library.AList"
begin

section \<open>Strings and characters\<close>

text \<open>
  A Python \<open>str\<close> is modelled as a HOL \<open>string\<close>, a list of characters. The
  character classes are the ASCII ones that the regular expressions of \<open>names.py\<close>
  spell out (\<open>[A-Z]\<close>, \<open>[a-z]\<close>, \<open>[0-9]\<close>); \<open>isdigit\<close>, \<open>isupper\<close>,
  \<open>lower\<close>, \<open>upper\<close>, the white space of \<open>strip\<close> and the line boundaries of
  \<open>splitlines\<close> are likewise taken on ASCII text. Strings are ordered as Python orders
  them: lexicographically, by character code.
\<close>

definition is_upper :: "char \<Rightarrow> bool" where
  "is_upper c = (65 \<le> (of_char c :: nat) \<and> (of_char c :: nat) \<le> 90)"

definition is_lower :: "char \<Rightarrow> bool" where
  "is_lower c = (97 \<le> (of_char c :: nat) \<and> (of_char c :: nat) \<le> 122)"

definition is_digit :: "char \<Rightarrow> bool" where
  "is_digit c = (48 \<le> (of_char c :: nat) \<and> (of_char c :: nat) \<le> 57)"

text \<open>The class \<open>[0-9a-z]\<close> of the part pattern.\<close>

definition is_lowdig :: "char \<Rightarrow> bool" where
  "is_lowdig c = (is_digit c \<or> is_lower c)"

text \<open>The class \<open>[A-Za-z_0-9]\<close> of \<open>RE_NAME\<close>.\<close>

definition is_name_char :: "char \<Rightarrow> bool" where
  "is_name_char c = (is_upper c \<or> is_lower c \<or> c = CHR ''_'' \<or> is_digit c)"

text \<open>\<open>RE_NAME = \A([A-Za-z_0-9]*)+\Z\<close>: every character is a name character.\<close>

definition re_name :: "string \<Rightarrow> bool" where
  "re_name s = list_all is_name_char s"

text \<open>White space as \<open>str.strip\<close> and \<open>int\<close> see it: tab, line feed, vertical tab,
  form feed, carriage return, the four separators \<open>0x1C\<close> to \<open>0x1F\<close>, and the space.\<close>

definition is_space :: "char \<Rightarrow> bool" where
  "is_space c = ((9 \<le> (of_char c :: nat) \<and> (of_char c :: nat) \<le> 13) \<or>
                 (28 \<le> (of_char c :: nat) \<and> (of_char c :: nat) \<le> 32))"

text \<open>The line boundaries of \<open>str.splitlines\<close>: line feed, vertical tab, form feed,
  carriage return, and the separators \<open>0x1C\<close> to \<open>0x1E\<close>.\<close>

definition is_linebreak :: "char \<Rightarrow> bool" where
  "is_linebreak c = ((10 \<le> (of_char c :: nat) \<and> (of_char c :: nat) \<le> 13) \<or>
                     (28 \<le> (of_char c :: nat) \<and> (of_char c :: nat) \<le> 30))"

text \<open>\<open>c.lower()\<close> and \<open>c.upper()\<close> of one character.\<close>

definition to_lower :: "char \<Rightarrow> char" where
  "to_lower c = (if is_upper c then char_of ((of_char c :: nat) + 32) else c)"

definition to_upper :: "char \<Rightarrow> char" where
  "to_upper c = (if is_lower c then char_of ((of_char c :: nat) - 32) else c)"

text \<open>\<open>s.split(sep)\<close> for a separator of one character: every occurrence splits, and
  empty fields are kept, so the result is never the empty list.\<close>

fun split_char :: "char \<Rightarrow> string \<Rightarrow> string list" where
  "split_char sep [] = [[]]"
| "split_char sep (c # cs) =
     (if c = sep then [] # split_char sep cs
      else (case split_char sep cs of
              [] \<Rightarrow> [[c]]
            | w # ws \<Rightarrow> (c # w) # ws))"

text \<open>\<open>sep.join(xs)\<close>.\<close>

fun join :: "string \<Rightarrow> string list \<Rightarrow> string" where
  "join sep [] = []"
| "join sep [x] = x"
| "join sep (x # y # ys) = x @ sep @ join sep (y # ys)"

text \<open>\<open>s.find(c)\<close> for one character: the index of its first occurrence, or \<open>-1\<close>.\<close>

fun find_char :: "string \<Rightarrow> char \<Rightarrow> int" where
  "find_char [] c = - 1"
| "find_char (x # xs) c =
     (if x = c then 0 else (let r = find_char xs c in if r = - 1 then - 1 else r + 1))"

text \<open>The index of the first occurrence of the string \<open>sub\<close> in a string, if there is
  one. The empty string occurs at index 0 of every string.\<close>

fun find_sub :: "string \<Rightarrow> string \<Rightarrow> nat option" where
  "find_sub sub [] = (if sub = [] then Some 0 else None)"
| "find_sub sub (x # xs) =
     (if prefix sub (x # xs) then Some 0 else map_option Suc (find_sub sub xs))"

text \<open>\<open>s.replace(old, new, 1)\<close>: the first occurrence of \<open>old\<close> is replaced, and \<open>s\<close>
  is returned as it is when there is none.\<close>

definition replace1 :: "string \<Rightarrow> string \<Rightarrow> string \<Rightarrow> string" where
  "replace1 s old new =
     (case find_sub old s of
        None \<Rightarrow> s
      | Some i \<Rightarrow> take i s @ new @ drop (i + length old) s)"

text \<open>\<open>s.split(sep, n)\<close> for a non-empty separator: at most \<open>n\<close> splits, from the left.\<close>

fun split_str :: "string \<Rightarrow> nat \<Rightarrow> string \<Rightarrow> string list" where
  "split_str sep 0 s = [s]"
| "split_str sep (Suc n) s =
     (case find_sub sep s of
        None \<Rightarrow> [s]
      | Some i \<Rightarrow> take i s # split_str sep n (drop (i + length sep) s))"

text \<open>\<open>s.lstrip()\<close>, \<open>s.rstrip()\<close> and the module's \<open>strip(s) = s.lstrip().rstrip()\<close>.\<close>

definition lstrip :: "string \<Rightarrow> string" where
  "lstrip s = dropWhile is_space s"

definition rstrip :: "string \<Rightarrow> string" where
  "rstrip s = rev (dropWhile is_space (rev s))"

definition strip :: "string \<Rightarrow> string" where
  "strip s = rstrip (lstrip s)"

text \<open>\<open>s.splitlines()\<close>: the lines of \<open>s\<close> without their boundaries; a carriage return
  followed by a line feed is one boundary, and a boundary at the very end opens no
  further line. The first argument is the line read so far.\<close>

fun splitlines_from :: "string \<Rightarrow> string \<Rightarrow> string list" where
  "splitlines_from cur [] = (if cur = [] then [] else [cur])"
| "splitlines_from cur [c] = (if is_linebreak c then [cur] else [cur @ [c]])"
| "splitlines_from cur (c # d # cs) =
     (if c = CHR 0x0D \<and> d = CHR 0x0A then cur # splitlines_from [] cs
      else if is_linebreak c then cur # splitlines_from [] (d # cs)
      else splitlines_from (cur @ [c]) (d # cs))"

definition splitlines :: "string \<Rightarrow> string list" where
  "splitlines s = splitlines_from [] s"

section \<open>Errors, indexing, integers\<close>

text \<open>The ways a call of the module can fail: the Python exceptions that the code can
  raise, the recursion limit of the interpreter, and \<open>exit(n)\<close>.\<close>

datatype error =
  IndexError | KeyError | ValueError | AssertionError | RecursionError | SystemExit nat

text \<open>A Python dictionary keeps its keys in the order of their first insertion; it is
  an association list with distinct keys, read with \<open>map_of\<close> and written with
  \<open>AList.update\<close>, which overwrites in place or appends.\<close>

type_synonym ('k, 'v) dict = "('k \<times> 'v) list"

text \<open>\<open>xs[i]\<close>: a negative index counts from the end, and an index out of range raises
  \<open>IndexError\<close>.\<close>

definition nth_py :: "'a list \<Rightarrow> int \<Rightarrow> error + 'a" where
  "nth_py xs i =
     (if 0 \<le> i \<and> i < int (length xs) then Inr (xs ! nat i)
      else if i < 0 \<and> - int (length xs) \<le> i then Inr (xs ! nat (int (length xs) + i))
      else Inl IndexError)"

text \<open>\<open>int(s)\<close>: surrounding white space is dropped, a sign may lead, and the rest must
  be decimal digits, where single underscores may stand between digits.\<close>

definition digit_val :: "char \<Rightarrow> nat" where
  "digit_val c = of_char c - 48"

fun valid_digits :: "string \<Rightarrow> bool" where
  "valid_digits [] = False"
| "valid_digits [c] = is_digit c"
| "valid_digits (c # d # ds) =
     (is_digit c \<and> (if d = CHR ''_'' then valid_digits ds else valid_digits (d # ds)))"

definition digits_value :: "string \<Rightarrow> nat" where
  "digits_value ds = foldl (\<lambda>acc c. 10 * acc + digit_val c) 0 ds"

definition py_int :: "string \<Rightarrow> error + int" where
  "py_int s =
     (let t = strip s;
          neg = (case t of [] \<Rightarrow> False | c # _ \<Rightarrow> c = CHR ''-'');
          ds = (case t of [] \<Rightarrow> [] | c # r \<Rightarrow> if c = CHR ''-'' \<or> c = CHR ''+'' then r else t)
      in if valid_digits ds
         then Inr ((if neg then - 1 else 1) * int (digits_value (filter (\<lambda>c. c \<noteq> CHR ''_'') ds)))
         else Inl ValueError)"

text \<open>\<open>str(n)\<close> of an integer: its decimal digits, after a minus sign when negative.\<close>

function str_nat :: "nat \<Rightarrow> string" where
  "str_nat n =
     (if n < 10 then [char_of (48 + n)] else str_nat (n div 10) @ [char_of (48 + n mod 10)])"
  by pat_completeness auto
termination
  by (relation "measure id") auto

definition py_str :: "int \<Rightarrow> string" where
  "py_str i = (if i < 0 then CHR ''-'' # str_nat (nat (- i)) else str_nat (nat i))"

section \<open>The state of the module\<close>

text \<open>The module keeps six global dictionaries; \<open>clear_names\<close> empties them all.\<close>

record state =
  named :: "(string, bool) dict"
  partnamed :: "(string, string) dict"
  ruled :: "(string, string) dict"
  unitd :: "(string, string) dict"
  shortd :: "(string, string) dict"
  longd :: "(string, string) dict"

definition clear_names :: "state" where
  "clear_names = \<lparr>named = [], partnamed = [], ruled = [], unitd = [], shortd = [], longd = []\<rparr>"

section \<open>Name decomposition\<close>

text \<open>
  \<open>re.sub(r'([A-Z][a-z]*[0-9a-z]*)', '_\\1_', nm)\<close>: scanning from the left, where an
  upper-case letter stands, the pattern matches it together with the longest run of
  lower-case letters and then the longest run of \<open>[0-9a-z]\<close> that follow (both stars are
  greedy and nothing follows them, so there is no backtracking); the match is copied
  between two underscores and the scan goes on behind it. Any other character is copied.
\<close>

function sub_parts :: "string \<Rightarrow> string" where
  "sub_parts [] = []"
| "sub_parts (c # cs) =
     (if is_upper c then
        (let r1 = dropWhile is_lower cs in
         CHR ''_'' # c # takeWhile is_lower cs @ takeWhile is_lowdig r1 @
         CHR ''_'' # sub_parts (dropWhile is_lowdig r1))
      else c # sub_parts cs)"
  by pat_completeness auto
termination
proof (relation "measure length")
  fix c :: char and cs r1 :: string
  assume "r1 = dropWhile is_lower cs"
  have "length (dropWhile is_lowdig (dropWhile is_lower cs)) \<le> length cs"
    by (rule order_trans [OF length_dropWhile_le length_dropWhile_le])
  then show "(dropWhile is_lowdig r1, c # cs) \<in> measure length"
    using \<open>r1 = dropWhile is_lower cs\<close> by simp
qed simp_all

text \<open>\<open>parts(nm)\<close>: the result of the substitution is split at every underscore and the
  empty fields are dropped.\<close>

definition parts :: "string \<Rightarrow> string list" where
  "parts nm = filter (\<lambda>pn. pn \<noteq> []) (split_char (CHR ''_'') (sub_parts nm))"

definition parts_join :: "string list \<Rightarrow> string" where
  "parts_join pnl = concat pnl"

text \<open>\<open>valid_name\<close> returns \<open>True\<close> whatever the name is.\<close>

definition valid_name :: "string \<Rightarrow> bool" where
  "valid_name nm = True"

text \<open>\<open>device(nm) = parts(nm)[0]\<close>.\<close>

definition device :: "string \<Rightarrow> error + string" where
  "device nm = nth_py (parts nm) 0"

text \<open>\<open>device_number\<close>: \<open>digits\<close> are the indices of the digits of the device;
  \<open>int(device(nd)[digits[0]:])\<close> evaluates \<open>device(nd)\<close>, then \<open>digits[0]\<close>, which
  raises \<open>IndexError\<close> when the device has no digit, then the slice and \<open>int\<close>.\<close>

definition device_number :: "string \<Rightarrow> error + int" where
  "device_number nm =
     (case device nm of
        Inl e \<Rightarrow> Inl e
      | Inr nd \<Rightarrow>
          (let digits = filter (\<lambda>i. is_digit (nd ! i)) [0..<length nd] in
           case device nd of
             Inl e \<Rightarrow> Inl e
           | Inr dd \<Rightarrow>
               (case nth_py digits 0 of
                  Inl e \<Rightarrow> Inl e
                | Inr d \<Rightarrow> py_int (drop d dd))))"

text \<open>\<open>is_parameter(nm) = (parts(nm)[-1] == 'Pa')\<close>.\<close>

definition is_parameter :: "string \<Rightarrow> error + bool" where
  "is_parameter nm =
     (case nth_py (parts nm) (- 1) of Inl e \<Rightarrow> Inl e | Inr p \<Rightarrow> Inr (p = ''Pa''))"

text \<open>\<open>kind(nm)\<close>: the part before the last for a parameter, the last part otherwise.\<close>

definition kind :: "string \<Rightarrow> error + string" where
  "kind nm =
     (case is_parameter nm of
        Inl e \<Rightarrow> Inl e
      | Inr b \<Rightarrow> if b then nth_py (parts nm) (- 2) else nth_py (parts nm) (- 1))"

section \<open>Case conversion\<close>

text \<open>\<open>name_to_lower(nm) = '_'.join(parts(nm)).lower()\<close>, behind the assertion.\<close>

definition name_to_lower :: "string \<Rightarrow> error + string" where
  "name_to_lower nm =
     (if valid_name nm then Inr (map to_lower (join ''_'' (parts nm))) else Inl AssertionError)"

text \<open>The loop of \<open>lower_to_name\<close>, with its two variables \<open>u\<close> and \<open>r\<close>.\<close>

fun lower_to_name_loop :: "bool \<Rightarrow> string \<Rightarrow> string \<Rightarrow> string" where
  "lower_to_name_loop u r [] = r"
| "lower_to_name_loop u r (c # cs) =
     (if c = CHR ''_'' then lower_to_name_loop True r cs
      else lower_to_name_loop False (if u then r @ [to_upper c] else r @ [c]) cs)"

definition lower_to_name :: "string \<Rightarrow> string" where
  "lower_to_name nm = lower_to_name_loop True [] nm"

text \<open>A name of the shape \<open>[A-Z][A-Za-z0-9]*\<close>, or the empty string.\<close>

definition cased :: "string \<Rightarrow> bool" where
  "cased s = (case s of [] \<Rightarrow> True | c # cs \<Rightarrow> is_upper c \<and> list_all (\<lambda>x. is_upper x \<or> is_lowdig x) cs)"

section \<open>Pattern matching\<close>

text \<open>
  Modelled from the spec: \<open>fnmatch.fnmatchcase\<close> belongs to the Python library, not to
  this repository. It is the glob match of the specification: \<open>*\<close> matches any run of
  characters, \<open>?\<close> any one character, \<open>[seq]\<close> any character of \<open>seq\<close> and \<open>[!seq]\<close>
  any character not in it, where \<open>seq\<close> lists characters and ranges \<open>lo-hi\<close>; a \<open>]\<close>
  right after the opening bracket (or after its \<open>!\<close>) belongs to \<open>seq\<close>, and a \<open>[\<close>
  that no \<open>]\<close> closes stands for itself. Every other character matches itself, and
  the whole name must be matched.
\<close>

definition bracket :: "string \<Rightarrow> (string \<times> string) option" where
  "bracket ps =
     (let a = (if ps \<noteq> [] \<and> hd ps = CHR ''!'' then 1 else 0);
          b = (if a < length ps \<and> ps ! a = CHR '']'' then a + 1 else a)
      in case find_sub '']'' (drop b ps) of
           None \<Rightarrow> None
         | Some k \<Rightarrow> Some (take (b + k) ps, drop (Suc (b + k)) ps))"

fun in_items :: "char \<Rightarrow> string \<Rightarrow> bool" where
  "in_items c [] = False"
| "in_items c (lo # d # hi # rest) =
     (if d = CHR ''-'' then (lo \<le> c \<and> c \<le> hi) \<or> in_items c rest
      else c = lo \<or> in_items c (d # hi # rest))"
| "in_items c (x # rest) = (c = x \<or> in_items c rest)"

definition in_class :: "char \<Rightarrow> string \<Rightarrow> bool" where
  "in_class c stuff =
     (case stuff of
        [] \<Rightarrow> False
      | x # r \<Rightarrow> if x = CHR ''!'' then \<not> in_items c r else in_items c stuff)"

function glob :: "string \<Rightarrow> string \<Rightarrow> bool" where
  "glob [] n = (n = [])"
| "glob (p # ps) n =
     (if p = CHR ''*'' then
        (glob ps n \<or> (case n of [] \<Rightarrow> False | c # n' \<Rightarrow> glob (p # ps) n'))
      else if p = CHR ''?'' then
        (case n of [] \<Rightarrow> False | c # n' \<Rightarrow> glob ps n')
      else if p = CHR ''['' then
        (case bracket ps of
           None \<Rightarrow> (case n of [] \<Rightarrow> False | c # n' \<Rightarrow> c = p \<and> glob ps n')
         | Some (stuff, rest) \<Rightarrow>
             (case n of [] \<Rightarrow> False | c # n' \<Rightarrow> in_class c stuff \<and> glob rest n'))
      else (case n of [] \<Rightarrow> False | c # n' \<Rightarrow> c = p \<and> glob ps n'))"
  by pat_completeness auto
termination
  by (relation "measure (\<lambda>(p, n). length p + length n)")
     (auto simp: bracket_def Let_def split: option.splits)

definition fnmatchcase :: "string \<Rightarrow> string \<Rightarrow> bool" where
  "fnmatchcase n pat = glob pat n"

text \<open>\<open>match(n, pat)\<close>: the loop over \<open>pat.split('|')\<close> returns at the first alternative
  that matches.\<close>

fun match_loop :: "string \<Rightarrow> string list \<Rightarrow> bool" where
  "match_loop n [] = False"
| "match_loop n (p # ps) = (if fnmatchcase n p then True else match_loop n ps)"

definition match :: "string \<Rightarrow> string \<Rightarrow> bool" where
  "match n pat = match_loop n (split_char (CHR ''|'') pat)"

section \<open>The registry\<close>

text \<open>\<open>name(nm, un, sh, lo)\<close>: the assertion, then four dictionary writes.\<close>

definition name :: "string \<Rightarrow> string \<Rightarrow> string \<Rightarrow> string \<Rightarrow> state \<Rightarrow> error + state" where
  "name nm un sh lo st =
     (if valid_name nm then
        Inr (st\<lparr>named := AList.update nm True (named st),
                unitd := AList.update nm un (unitd st),
                shortd := AList.update nm sh (shortd st),
                longd := AList.update nm lo (longd st)\<rparr>)
      else Inl AssertionError)"

text \<open>\<open>bigname(nm) = nm[0].isupper()\<close>.\<close>

definition bigname :: "string \<Rightarrow> error + bool" where
  "bigname nm = (case nth_py nm 0 of Inl e \<Rightarrow> Inl e | Inr c \<Rightarrow> Inr (is_upper c))"

text \<open>The filter \<open>f\<close> of \<open>names\<close>: a chain of \<open>and\<close>, which stops at the first false
  conjunct, so that \<open>device(v)\<close> is only evaluated for a name that matches \<open>only\<close> and
  does not match \<open>excludes\<close>.\<close>

definition names_f :: "string \<Rightarrow> string \<Rightarrow> string \<Rightarrow> bool \<Rightarrow> string \<Rightarrow> error + bool" where
  "names_f only excludes device_pat onlybig v =
     (if \<not> match v only then Inr False
      else if match v excludes then Inr False
      else (case device v of
              Inl e \<Rightarrow> Inl e
            | Inr d \<Rightarrow>
                if \<not> match d device_pat then Inr False
                else if onlybig then bigname v else Inr True))"

fun filter_err :: "('a \<Rightarrow> error + bool) \<Rightarrow> 'a list \<Rightarrow> error + 'a list" where
  "filter_err f [] = Inr []"
| "filter_err f (x # xs) =
     (case f x of
        Inl e \<Rightarrow> Inl e
      | Inr b \<Rightarrow>
          (case filter_err f xs of
             Inl e \<Rightarrow> Inl e
           | Inr r \<Rightarrow> Inr (if b then x # r else r)))"

text \<open>\<open>names(only, excludes, device_pat, onlybig) = sorted(filter(f, named))\<close>.\<close>

definition names :: "string \<Rightarrow> string \<Rightarrow> string \<Rightarrow> bool \<Rightarrow> state \<Rightarrow> error + string list" where
  "names only excludes device_pat onlybig st =
     (case filter_err (names_f only excludes device_pat onlybig) (map fst (named st)) of
        Inl e \<Rightarrow> Inl e
      | Inr r \<Rightarrow> Inr (sort r))"

text \<open>\<open>short(nm)\<close>: the short descriptions of the parts, a part standing for itself
  when it has none; \<open>long(nm)\<close>; and \<open>units(nm) = unitd[kind(nm)]\<close>.\<close>

definition short :: "string \<Rightarrow> state \<Rightarrow> string" where
  "short nm st =
     join '' '' (map (\<lambda>pn. case map_of (shortd st) pn of Some d \<Rightarrow> d | None \<Rightarrow> pn) (parts nm))"

definition long :: "string \<Rightarrow> state \<Rightarrow> string" where
  "long nm st = (case map_of (longd st) nm of Some d \<Rightarrow> d | None \<Rightarrow> [])"

definition units :: "string \<Rightarrow> state \<Rightarrow> error + string" where
  "units nm st =
     (case kind nm of
        Inl e \<Rightarrow> Inl e
      | Inr k \<Rightarrow> (case map_of (unitd st) k of Some u \<Rightarrow> Inr u | None \<Rightarrow> Inl KeyError))"

section \<open>Grammar expansion\<close>

text \<open>The body of the loop of \<open>bnf_to_rules\<close> over the lines of the grammar: a line that
  is not blank and no comment is split at \<open>::=\<close>, at most twice, and defines a rule
  when that gives two fields (otherwise a message is printed, and the table stays).\<close>

definition bnf_line :: "(string, string) dict \<Rightarrow> string \<Rightarrow> (string, string) dict" where
  "bnf_line g l =
     (let l1 = rstrip (lstrip l) in
      if l1 \<noteq> [] \<and> hd l1 \<noteq> CHR ''#'' then
        (let fs = split_str ''::='' 2 l1 in
         if length fs = 2 then AList.update (strip (fs ! 0)) (strip (fs ! 1)) g else g)
      else g)"

definition bnf_to_rules :: "string \<Rightarrow> (string, string) dict" where
  "bnf_to_rules grammar = foldl bnf_line [] (splitlines grammar)"

text \<open>\<open>finished(s) = (s.find('<') == -1 and s.find('|') == -1)\<close>.\<close>

definition finished :: "string \<Rightarrow> bool" where
  "finished s = (find_char s (CHR ''<'') = - 1 \<and> find_char s (CHR ''|'') = - 1)"

text \<open>
  \<open>expand_rules(rules, s)\<close> calls itself, and nothing bounds the depth of the calls but
  the recursion limit of the interpreter: the first argument is the number of nested
  calls that are still allowed, and \<open>RecursionError\<close> is raised when none is. The two
  loops run over \<open>rules.items()\<close> and over \<open>rhs.split('|')\<close>, with the variable
  \<open>results\<close>; a raised error ends them.
\<close>

fun expand_rules :: "nat \<Rightarrow> (string, string) dict \<Rightarrow> string \<Rightarrow> error + string set" where
  "expand_rules 0 rules s = Inl RecursionError"
| "expand_rules (Suc n) rules s =
     (if finished s then Inr {s}
      else
        fold (\<lambda>(lhs, rhs) results.
          fold (\<lambda>c results.
            (case results of
               Inl e \<Rightarrow> Inl e
             | Inr res \<Rightarrow>
                 (let u = replace1 s lhs c in
                  if u \<noteq> s then
                    (case expand_rules n rules u of
                       Inl e \<Rightarrow> Inl e
                     | Inr r \<Rightarrow> Inr (res \<union> r))
                  else Inr res)))
            (split_char (CHR ''|'') rhs) results)
          rules (Inr {}))"

text \<open>\<open>expand_bnf(grammar, start) = sorted(expand_rules(bnf_to_rules(grammar), start))\<close>.\<close>

definition expand_bnf :: "nat \<Rightarrow> string \<Rightarrow> string \<Rightarrow> error + string list" where
  "expand_bnf n grammar start =
     (case expand_rules n (bnf_to_rules grammar) start of
        Inl e \<Rightarrow> Inl e
      | Inr r \<Rightarrow> Inr (sorted_list_of_set r))"

text \<open>The rewritten strings that the two loops of \<open>expand_rules\<close> recurse on, as the
  specification lists them: for every rule of the table and every alternative of its
  right-hand side, the string with the first occurrence of the left-hand side
  replaced by the alternative, unless that is the string itself.\<close>

definition rewritten :: "(string, string) dict \<Rightarrow> string \<Rightarrow> string list" where
  "rewritten rules s =
     concat (map (\<lambda>(lhs, rhs).
       filter (\<lambda>u. u \<noteq> s) (map (\<lambda>c. replace1 s lhs c) (split_char (CHR ''|'') rhs))) rules)"

text \<open>One step of the two loops of \<open>expand_rules\<close>, once the rewritten string \<open>u\<close> is
  known: what the recursive call \<open>rec\<close> returns for \<open>u\<close> is added to \<open>results\<close>.\<close>

definition add_result ::
  "(string \<Rightarrow> error + string set) \<Rightarrow> string \<Rightarrow> error + string set \<Rightarrow> error + string set" where
  "add_result rec u results =
     (case results of
        Inl e \<Rightarrow> Inl e
      | Inr res \<Rightarrow> (case rec u of Inl e \<Rightarrow> Inl e | Inr r \<Rightarrow> Inr (res \<union> r)))"

text \<open>What a line of a grammar defines, if anything: the test and the split of the loop
  body of \<open>bnf_to_rules\<close>.\<close>

definition definition_of :: "string \<Rightarrow> (string \<times> string) option" where
  "definition_of l =
     (let l1 = rstrip (lstrip l) in
      if l1 \<noteq> [] \<and> hd l1 \<noteq> CHR ''#'' then
        (let fs = split_str ''::='' 2 l1 in
         if length fs = 2 then Some (strip (fs ! 0), strip (fs ! 1)) else None)
      else None)"

section \<open>Reading a description\<close>

text \<open>
  \<open>read_description\<close> reads the rows that \<open>csv.reader\<close> yields, a list of fields each.
  This is the part of the loop body behind the checks of the number of fields and of
  the header line: the row is a comment, a grammar rule, a new rule or a description,
  and its units, short and long descriptions are recorded when they are not empty.
\<close>

definition description_row ::
  "(string, string) dict \<Rightarrow> state \<Rightarrow> string list \<Rightarrow> (string, string) dict \<times> state" where
  "description_row g st row =
     (let nm = strip (row ! 0);
          rl = strip (row ! 1);
          un = strip (row ! 2);
          sh = strip (row ! 3);
          lo = strip (row ! 4);
          (g1, st1) =
            (if length nm > 0 \<and> hd nm = CHR ''#'' then (g, st)
             else if CHR ''<'' \<in> set nm then
               (if length rl \<noteq> 0 \<and> hd rl = CHR ''|'' then
                  (if map_of g nm = None \<or> map_of g nm = Some [] then
                     (AList.update nm (tl rl) g, st)
                   else (AList.update nm (the (map_of g nm) @ rl) g, st))
                else (AList.update nm rl g, st))
             else if CHR ''<'' \<in> set rl then
               (case map_of g rl of
                  Some old \<Rightarrow> (AList.update rl (old @ ''|'' @ nm) g, st)
                | None \<Rightarrow> (AList.update rl nm g, st))
             else
               (g, st\<lparr>partnamed := AList.update nm (strip nm) (partnamed st),
                       ruled := AList.update nm (strip rl) (ruled st)\<rparr>));
          st2 = (if un \<noteq> [] then st1\<lparr>unitd := AList.update nm un (unitd st1)\<rparr> else st1);
          st3 = (if sh \<noteq> [] then st2\<lparr>shortd := AList.update nm sh (shortd st2)\<rparr> else st2);
          st4 = (if lo \<noteq> [] then st3\<lparr>longd := AList.update nm lo (longd st3)\<rparr> else st3)
      in (g1, st4))"

text \<open>The loop over the rows; the first argument is \<open>line\<close>, the number of rows read
  before this one. An empty row is skipped, a row of four fields gets an empty fifth,
  a row that has not five fields then ends the run with \<open>exit(1)\<close>, and the first
  line is skipped after that check.\<close>

fun read_rows ::
  "nat \<Rightarrow> (string, string) dict \<Rightarrow> state \<Rightarrow> string list list \<Rightarrow>
   error + (string, string) dict \<times> state" where
  "read_rows line g st [] = Inr (g, st)"
| "read_rows line g st (row # rows) =
     (if length row = 0 then read_rows (line + 1) g st rows
      else
        (let row5 = (if length row = 4 then row @ [[]] else row) in
         if length row5 \<noteq> 5 then Inl (SystemExit 1)
         else if line + 1 = 1 then read_rows (line + 1) g st rows
         else (case description_row g st row5 of
                 (g1, st1) \<Rightarrow> read_rows (line + 1) g1 st1 rows)))"

definition read_description ::
  "string list list \<Rightarrow> state \<Rightarrow> error + (string, string) dict \<times> state" where
  "read_description rows st = read_rows 0 [] st rows"

section \<open>The examples of the docstrings\<close>

text \<open>The model computes what the docstrings of the module show.\<close>

lemma doctest_parts:
  "parts ''Gen1P'' = [''Gen1'', ''P'']"
  "parts ''Pv1U12'' = [''Pv1'', ''U12'']"
  "parts ''0A'' = [''0'', ''A'']"
  "parts ''P'' = [''P'']"
  "parts ''Gen1U1n'' = [''Gen1'', ''U1n'']"
  "parts ''gammadog'' = [''gammadog'']"
  "parts ''A1A'' = [''A1'', ''A'']"
  "parts ''A1'' = [''A1'']"
  "parts_join [''Gen'', ''P''] = ''GenP''"
  by code_simp+

lemma doctest_device:
  "device ''Ess1DcP'' = Inr ''Ess1''"
  "device ''Pv1001'' = Inr ''Pv1001''"
  "device ''A1A'' = Inr ''A1''"
  "device_number ''Gen1P'' = Inr 1"
  "device_number ''Pv11U12'' = Inr 11"
  "device_number ''Pv12'' = Inr 12"
  by code_simp+

lemma doctest_kind:
  "is_parameter ''GenP'' = Inr False"
  "is_parameter ''Pv1MaxPPa'' = Inr True"
  "kind ''Gen1P'' = Inr ''P''"
  "kind ''Pv1U12'' = Inr ''U12''"
  "kind ''Pv1MaxPPa'' = Inr ''P''"
  "kind ''Pv1U1n'' = Inr ''U1n''"
  by code_simp+

lemma doctest_case:
  "name_to_lower ''Gen1P'' = Inr ''gen1_p''"
  "name_to_lower ''Wtg1InvInlet2InvTemp'' = Inr ''wtg1_inv_inlet2_inv_temp''"
  "lower_to_name ''gen1_p'' = ''Gen1P''"
  by code_simp+

lemma doctest_match: "match ''A.c'' ''*.c''"
  by code_simp

lemma doctest_grammar:
  "bnf_to_rules ''<a> ::= b|c'' = [(''<a>'', ''b|c'')]"
  "finished ''Lollipop''"
  "\<not> finished ''hello|<nt>''"
  "\<not> finished ''pink elephants|b''"
  "expand_bnf 2 (''<s> ::= hello'' @ [CHR 0x0A]) ''<s>'' = Inr [''hello'']"
  "expand_bnf 3 (''<s> ::= hello<world>'' @ [CHR 0x0A] @ ''<world> ::= world'') ''<s>'' =
     Inr [''helloworld'']"
  "expand_bnf 2 (''<s> ::= hello|world'' @ [CHR 0x0A]) ''<s>'' = Inr [''hello'', ''world'']"
  "expand_bnf 2 (''<s> ::= '' @ [CHR 0x0A]) ''<s>'' = Inr [[]]"
  by code_simp+

section \<open>Properties of the decomposition\<close>

lemma concat_filter_nonempty: "concat (filter (\<lambda>pn. pn \<noteq> []) xs) = concat xs"
  by (induction xs) auto

lemma split_char_nonempty: "split_char sep s \<noteq> []"
  by (induction s) (auto split: list.splits)

lemma concat_split_char: "concat (split_char sep s) = filter (\<lambda>c. c \<noteq> sep) s"
  by (induction s) (auto split: list.splits)

lemma not_upper_underscore: "\<not> is_upper (CHR ''_'')"
  by (simp add: is_upper_def)

lemma filter_sub_parts:
  "filter (\<lambda>c. c \<noteq> CHR ''_'') (sub_parts s) = filter (\<lambda>c. c \<noteq> CHR ''_'') s"
proof (induction s rule: sub_parts.induct)
  case 1
  show ?case by simp
next
  case (2 c cs)
  show ?case
  proof (cases "is_upper c")
    case False
    with 2 show ?thesis by simp
  next
    case True
    let ?r1 = "dropWhile is_lower cs"
    let ?F = "filter (\<lambda>c. c \<noteq> CHR ''_'')"
    have ih: "?F (sub_parts (dropWhile is_lowdig ?r1)) = ?F (dropWhile is_lowdig ?r1)"
      using 2(1) [OF True refl] .
    have c: "c \<noteq> CHR ''_''"
      using True not_upper_underscore by auto
    have "?F (sub_parts (c # cs)) =
        c # ?F (takeWhile is_lower cs) @ ?F (takeWhile is_lowdig ?r1) @
        ?F (sub_parts (dropWhile is_lowdig ?r1))"
      using True c by (simp add: Let_def)
    also have "\<dots> = c # ?F (takeWhile is_lower cs) @ ?F (takeWhile is_lowdig ?r1) @
        ?F (dropWhile is_lowdig ?r1)"
      by (simp only: ih)
    also have "\<dots> = c # ?F (takeWhile is_lower cs @ takeWhile is_lowdig ?r1 @ dropWhile is_lowdig ?r1)"
      by (simp only: filter_append)
    also have "\<dots> = c # ?F cs"
      by (simp only: takeWhile_dropWhile_id)
    finally show ?thesis using c by simp
  qed
qed

lemma parts_join_parts: "parts_join (parts s) = filter (\<lambda>c. c \<noteq> CHR ''_'') s"
  by (simp add: parts_join_def parts_def concat_filter_nonempty concat_split_char
      filter_sub_parts)

text \<open>
  C1. For every string \<open>s\<close> over the name alphabet \<open>[A-Za-z0-9_]\<close> that contains no
  underscore, joining the parts of \<open>s\<close> gives \<open>s\<close> back.
\<close>

theorem C1_parts_roundtrip:
  assumes "re_name s" and "CHR ''_'' \<notin> set s"
  shows "parts_join (parts s) = s"
proof -
  have "filter (\<lambda>c. c \<noteq> CHR ''_'') s = s"
    using assms(2) by (induction s) auto
  then show ?thesis
    by (simp add: parts_join_parts)
qed

theorem C1_parts_roundtrip_witness:
  "re_name ''Gen1U1n'' \<and> CHR ''_'' \<notin> set ''Gen1U1n'' \<and>
   parts_join (parts ''Gen1U1n'') = ''Gen1U1n''"
proof -
  have r: "re_name ''Gen1U1n''" by code_simp
  have u: "CHR ''_'' \<notin> set ''Gen1U1n''" by simp
  show ?thesis
    using r u C1_parts_roundtrip [OF r u] by simp
qed

declare sub_parts.simps [simp del]

lemma sub_parts_Nil: "sub_parts [] = []"
  by (simp add: sub_parts.simps)

lemma lower_lowdig: "is_lower c \<Longrightarrow> is_lowdig c"
  by (simp add: is_lowdig_def)

lemma upper_not_lowdig: "is_upper c \<Longrightarrow> \<not> is_lowdig c"
  by (auto simp: is_upper_def is_lowdig_def is_lower_def is_digit_def)

lemma lowdig_not_underscore: "is_lowdig c \<Longrightarrow> c \<noteq> CHR ''_''"
  by (auto simp: is_lowdig_def is_lower_def is_digit_def)

lemma upper_not_underscore: "is_upper c \<Longrightarrow> c \<noteq> CHR ''_''"
  by (auto simp: is_upper_def)

lemma takeWhile_lower_lowdig:
  "takeWhile is_lower cs @ takeWhile is_lowdig (dropWhile is_lower cs) = takeWhile is_lowdig cs"
  by (induction cs) (auto simp: lower_lowdig)

lemma dropWhile_lower_lowdig:
  "dropWhile is_lowdig (dropWhile is_lower cs) = dropWhile is_lowdig cs"
  by (induction cs) (auto simp: lower_lowdig)

lemma sub_parts_upper:
  "is_upper c \<Longrightarrow> sub_parts (c # cs) =
     CHR ''_'' # (c # takeWhile is_lowdig cs) @ CHR ''_'' # sub_parts (dropWhile is_lowdig cs)"
  using takeWhile_lower_lowdig [of cs]
  by (simp add: sub_parts.simps Let_def dropWhile_lower_lowdig del: takeWhile_append)

lemma sub_parts_other: "\<not> is_upper c \<Longrightarrow> sub_parts (c # cs) = c # sub_parts cs"
  by (simp add: sub_parts.simps)

lemma length_dropWhile_less: "length (dropWhile P cs) < Suc (length cs)"
  by (simp add: length_dropWhile_le less_Suc_eq_le)

lemma parts_induct [case_names Nil Upper Other]:
  assumes "P []"
    and "\<And>c cs. is_upper c \<Longrightarrow> P (dropWhile is_lowdig cs) \<Longrightarrow> P (c # cs)"
    and "\<And>c cs. \<not> is_upper c \<Longrightarrow> P cs \<Longrightarrow> P (c # cs)"
  shows "P s"
proof (induction s rule: length_induct)
  case (1 xs)
  show ?case
  proof (cases xs)
    case Nil
    then show ?thesis using assms(1) by simp
  next
    case (Cons c cs)
    show ?thesis
    proof (cases "is_upper c")
      case True
      have "P (dropWhile is_lowdig cs)"
        using 1 Cons length_dropWhile_less [of is_lowdig cs] by simp
      then show ?thesis using assms(2) True Cons by simp
    next
      case False
      have "P cs" using 1 Cons by simp
      then show ?thesis using assms(3) False Cons by simp
    qed
  qed
qed

lemma split_char_append_sep:
  "split_char sep (xs @ sep # ys) = split_char sep xs @ split_char sep ys"
  by (induction xs) (auto split: list.splits simp: split_char_nonempty)

lemma split_char_no_sep: "sep \<notin> set xs \<Longrightarrow> split_char sep xs = [xs]"
  by (induction xs) auto

lemma parts_Nil: "parts [] = []"
  by (simp add: parts_def sub_parts_Nil)

lemma parts_upper:
  assumes "is_upper c"
  shows "parts (c # cs) = (c # takeWhile is_lowdig cs) # parts (dropWhile is_lowdig cs)"
proof -
  let ?m = "c # takeWhile is_lowdig cs"
  have nosep: "CHR ''_'' \<notin> set ?m"
    using assms upper_not_underscore lowdig_not_underscore
    by (auto dest: set_takeWhileD)
  have "split_char (CHR ''_'') (?m @ CHR ''_'' # sub_parts (dropWhile is_lowdig cs)) =
      ?m # split_char (CHR ''_'') (sub_parts (dropWhile is_lowdig cs))"
    by (subst split_char_append_sep) (simp only: split_char_no_sep [OF nosep] append.simps)
  then show ?thesis
    using assms by (simp add: parts_def sub_parts_upper)
qed

lemma takeWhile_append_stop: "\<not> P y \<Longrightarrow> takeWhile P (xs @ y # ys) = takeWhile P xs"
  by (induction xs) auto

lemma dropWhile_append_stop:
  "\<not> P y \<Longrightarrow> dropWhile P (xs @ y # ys) = dropWhile P xs @ y # ys"
  by (induction xs) auto

lemma P_upper: "is_upper (CHR ''P'')"
  by (simp add: is_upper_def)

lemma sub_parts_append_Pa: "sub_parts (b @ ''Pa'') = sub_parts b @ ''_Pa_''"
proof (induction b rule: parts_induct)
  case Nil
  have "sub_parts ''Pa'' = ''_Pa_''" by code_simp
  then show ?case by (simp add: sub_parts_Nil)
next
  case (Upper c cs)
  have np: "\<not> is_lowdig (CHR ''P'')"
    using P_upper upper_not_lowdig by blast
  have "sub_parts ((c # cs) @ ''Pa'') =
      CHR ''_'' # (c # takeWhile is_lowdig (cs @ ''Pa'')) @
      CHR ''_'' # sub_parts (dropWhile is_lowdig (cs @ ''Pa''))"
    using Upper(1) by (simp only: append_Cons sub_parts_upper)
  also have "takeWhile is_lowdig (cs @ ''Pa'') = takeWhile is_lowdig cs"
    using np by (rule takeWhile_append_stop)
  also have "dropWhile is_lowdig (cs @ ''Pa'') = dropWhile is_lowdig cs @ ''Pa''"
    using np by (rule dropWhile_append_stop)
  finally show ?case
    using Upper by (simp add: sub_parts_upper)
next
  case (Other c cs)
  then show ?case by (simp add: sub_parts_other)
qed

lemma parts_append_Pa: "parts (b @ ''Pa'') = parts b @ [''Pa'']"
proof -
  have "split_char (CHR ''_'') (sub_parts b @ ''_Pa_'') =
      split_char (CHR ''_'') (sub_parts b) @ split_char (CHR ''_'') ''Pa_''"
    using split_char_append_sep [of "CHR ''_''" "sub_parts b" "''Pa_''"] by simp
  then show ?thesis
    by (simp add: parts_def sub_parts_append_Pa)
qed

lemma nth_py_last: "nth_py xs (- 1) = (if xs = [] then Inl IndexError else Inr (last xs))"
  by (cases xs rule: rev_cases) (auto simp: nth_py_def nth_append)

lemma nth_py_last2:
  "nth_py (xs @ [y]) (- 2) = (if xs = [] then Inl IndexError else Inr (last xs))"
  by (cases xs rule: rev_cases) (auto simp: nth_py_def nth_append)

lemma is_parameter_append_Pa: "is_parameter (b @ ''Pa'') = Inr True"
  by (simp add: is_parameter_def parts_append_Pa nth_py_last)

lemma kind_append_Pa:
  "kind (b @ ''Pa'') = (if parts b = [] then Inl IndexError else Inr (last (parts b)))"
proof (cases "parts b = []")
  case True
  then show ?thesis
    by (simp add: kind_def is_parameter_append_Pa parts_append_Pa nth_py_def)
next
  case False
  then show ?thesis
    by (simp add: kind_def is_parameter_append_Pa parts_append_Pa nth_py_last2)
qed

lemma is_parameter_False:
  "is_parameter b = Inr False \<longleftrightarrow> parts b \<noteq> [] \<and> last (parts b) \<noteq> ''Pa''"
  by (auto simp: is_parameter_def nth_py_last)

text \<open>
  C6, as amended. For every string \<open>b\<close>, \<open>b + "Pa"\<close> is a parameter; and when \<open>b\<close> is
  not itself a parameter (\<open>is_parameter(b)\<close> returns false), \<open>b + "Pa"\<close> has the kind
  of \<open>b\<close>.
\<close>

theorem C6_parameter_kind:
  "is_parameter (b @ ''Pa'') = Inr True \<and>
   (is_parameter b = Inr False \<longrightarrow> (\<exists>k. kind b = Inr k \<and> kind (b @ ''Pa'') = Inr k))"
proof -
  have "kind b = Inr (last (parts b)) \<and> kind (b @ ''Pa'') = Inr (last (parts b))"
    if "is_parameter b = Inr False"
  proof -
    from that have ne: "parts b \<noteq> []"
      by (simp add: is_parameter_False)
    have "kind b = Inr (last (parts b))"
      using that ne by (simp add: kind_def nth_py_last)
    moreover have "kind (b @ ''Pa'') = Inr (last (parts b))"
      using ne by (simp add: kind_append_Pa)
    ultimately show ?thesis by simp
  qed
  then show ?thesis
    by (simp add: is_parameter_append_Pa)
qed

theorem C6_parameter_kind_witness:
  "is_parameter (''Gen1P'' @ ''Pa'') = Inr True \<and> is_parameter ''Gen1P'' = Inr False \<and>
   kind ''Gen1P'' = Inr ''P'' \<and> kind (''Gen1P'' @ ''Pa'') = Inr ''P''"
proof -
  have p: "is_parameter ''Gen1P'' = Inr False" by code_simp
  have k: "kind ''Gen1P'' = Inr ''P''" by code_simp
  show ?thesis
    using C6_parameter_kind [of "''Gen1P''"] p k by auto
qed

text \<open>The claim C6 as it stands fails for a base name that is a parameter already:
  the kind of \<open>XPaPa\<close> is \<open>Pa\<close>, and the kind of \<open>XPa\<close> is \<open>X\<close>.\<close>

theorem C6_counterexample:
  "\<not> (is_parameter (''XPa'' @ ''Pa'') = Inr True \<and> kind (''XPa'' @ ''Pa'') = kind ''XPa'')"
proof -
  have "kind (''XPa'' @ ''Pa'') = Inr ''Pa''" by code_simp
  moreover have "kind ''XPa'' = Inr ''X''" by code_simp
  ultimately show ?thesis by simp
qed



section \<open>Integers and the device number\<close>


declare str_nat.simps [simp del]

lemma digits_value_snoc: "digits_value (ds @ [c]) = 10 * digits_value ds + digit_val c"
  by (simp add: digits_value_def)

lemma digit_char: "n < 10 \<Longrightarrow> is_digit (char_of (48 + n)) \<and> digit_val (char_of (48 + n)) = n"
  by (simp add: is_digit_def digit_val_def)

lemma str_nat_digits: "list_all is_digit (str_nat n) \<and> str_nat n \<noteq> []"
proof (induction n rule: str_nat.induct)
  case (1 n)
  show ?case
  proof (cases "n < 10")
    case True
    then show ?thesis using digit_char [of n] by (simp add: str_nat.simps [of n])
  next
    case False
    then show ?thesis using 1 digit_char [of "n mod 10"]
      by (simp add: str_nat.simps [of n])
  qed
qed

lemma digits_value_str_nat: "digits_value (str_nat n) = n"
proof (induction n rule: str_nat.induct)
  case (1 n)
  show ?case
  proof (cases "n < 10")
    case True
    then show ?thesis using digit_char [of n]
      by (simp add: str_nat.simps [of n] digits_value_def)
  next
    case False
    then show ?thesis using 1 digit_char [of "n mod 10"]
      by (simp add: str_nat.simps [of n] digits_value_snoc)
  qed
qed

lemma valid_digits_all: "ds \<noteq> [] \<Longrightarrow> list_all is_digit ds \<Longrightarrow> valid_digits ds"
  by (induction ds rule: valid_digits.induct) (auto simp: is_digit_def)

lemma digit_not_space: "is_digit c \<Longrightarrow> \<not> is_space c"
  by (auto simp: is_digit_def is_space_def)

lemma digit_not_sign: "is_digit c \<Longrightarrow> c \<noteq> CHR ''-'' \<and> c \<noteq> CHR ''+'' \<and> c \<noteq> CHR ''_''"
  by (auto simp: is_digit_def)

lemma strip_digits:
  assumes "ds \<noteq> []" and "list_all is_digit ds"
  shows "strip ds = ds"
proof -
  have h: "\<not> is_space (hd ds)" and l: "\<not> is_space (last ds)"
    using assms digit_not_space by (auto simp: list_all_iff)
  have "lstrip ds = ds"
    using assms(1) h by (cases ds) (simp_all add: lstrip_def)
  moreover have "rstrip ds = ds"
    using assms(1) l by (cases ds rule: rev_cases) (simp_all add: rstrip_def)
  ultimately show ?thesis by (simp add: strip_def)
qed

lemma py_int_digits:
  assumes "ds \<noteq> []" and "list_all is_digit ds"
  shows "py_int ds = Inr (int (digits_value ds))"
proof -
  obtain c r where ds: "ds = c # r" using assms(1) by (cases ds) auto
  have c: "c \<noteq> CHR ''-''" "c \<noteq> CHR ''+''"
    using assms(2) ds digit_not_sign by auto
  have f: "filter (\<lambda>c. c \<noteq> CHR ''_'') ds = ds"
    using assms(2) digit_not_sign by (induction ds) auto
  have s: "strip ds = ds"
    by (rule strip_digits [OF assms])
  have "py_int ds =
      (if valid_digits ds
       then Inr (1 * int (digits_value (filter (\<lambda>c. c \<noteq> CHR ''_'') ds)))
       else Inl ValueError)"
    unfolding py_int_def Let_def s using c by (simp add: ds)
  then show ?thesis
    using valid_digits_all [OF assms] f by simp
qed

lemma py_int_py_str: "0 \<le> n \<Longrightarrow> py_int (py_str n) = Inr n"
  using str_nat_digits [of "nat n"]
  by (simp add: py_str_def py_int_digits digits_value_str_nat)



lemma takeWhile_all_stop:
  "list_all P xs \<Longrightarrow> ys = [] \<or> \<not> P (hd ys) \<Longrightarrow> takeWhile P (xs @ ys) = xs"
  by (induction xs) (auto simp: takeWhile_eq_Nil_iff)

lemma dropWhile_all_stop:
  "list_all P xs \<Longrightarrow> ys = [] \<or> \<not> P (hd ys) \<Longrightarrow> dropWhile P (xs @ ys) = ys"
  by (induction xs) (auto simp: dropWhile_eq_self_iff)

lemma nth_py_0: "nth_py xs 0 = (case xs of [] \<Rightarrow> Inl IndexError | x # _ \<Rightarrow> Inr x)"
  by (cases xs) (simp_all add: nth_py_def)

lemma nth_py_error: "nth_py xs i = Inl e \<Longrightarrow> e = IndexError"
  by (auto simp: nth_py_def Let_def split: if_splits)

lemma lower_not_digit: "is_lower c \<Longrightarrow> \<not> is_digit c"
  by (auto simp: is_lower_def is_digit_def)

lemma upper_not_digit: "is_upper c \<Longrightarrow> \<not> is_digit c"
  by (auto simp: is_upper_def is_digit_def)

lemma underscore_not_lowdig: "\<not> is_lowdig (CHR ''_'')"
  by (simp add: is_lowdig_def is_lower_def is_digit_def)

text \<open>A part that is an upper-case letter followed by lower-case letters and digits
  only is its own single part.\<close>

lemma parts_single:
  assumes "is_upper p" and "list_all is_lowdig xs"
  shows "parts (p # xs) = [p # xs]"
proof -
  have t: "takeWhile is_lowdig xs = xs" and d: "dropWhile is_lowdig xs = []"
    using assms(2) by (simp_all add: list_all_iff)
  show ?thesis
    by (simp only: parts_upper [OF assms(1)] t d parts_Nil)
qed

lemma parts_device_first:
  assumes "is_upper p" and "list_all is_lowdig xs" and "ys = [] \<or> \<not> is_lowdig (hd ys)"
  shows "parts (p # xs @ ys) = (p # xs) # parts ys"
  using takeWhile_all_stop [OF assms(2,3)] dropWhile_all_stop [OF assms(2,3)]
  by (simp add: parts_upper [OF assms(1)])

lemma first_digit_index:
  assumes "list_all (\<lambda>c. \<not> is_digit c) xs" and "ys \<noteq> []" and "list_all is_digit ys"
  shows "nth_py (filter (\<lambda>i. is_digit ((xs @ ys) ! i)) [0..<length (xs @ ys)]) 0 = Inr (length xs)"
proof -
  let ?P = "\<lambda>i. is_digit ((xs @ ys) ! i)"
  let ?n = "length xs"
  let ?m = "length xs + length ys"
  have split: "[0..<length (xs @ ys)] = [0..<?n] @ [?n..<?m]"
    using upt_add_eq_append [of 0 ?n "length ys"] by simp
  have "\<not> ?P i" if "i < ?n" for i
    using assms(1) that by (simp add: list_all_length nth_append)
  then have a: "filter ?P [0..<?n] = []"
    by (simp add: filter_empty_conv)
  have "?P i" if "?n \<le> i" and "i < ?m" for i
  proof -
    have "i - ?n < length ys" using that by arith
    then have "is_digit (ys ! (i - ?n))"
      using assms(3) by (simp add: list_all_length)
    then show ?thesis
      using that(1) by (simp add: nth_append)
  qed
  then have b: "filter ?P [?n..<?m] = [?n..<?m]"
    by (simp add: filter_id_conv)
  have c: "[?n..<?m] = ?n # [Suc ?n..<?m]"
    using assms(2) by (simp add: upt_conv_Cons)
  have "filter ?P [0..<length (xs @ ys)] = ?n # [Suc ?n..<?m]"
    by (simp only: split filter_append a b append_Nil) (rule c)
  then show ?thesis
    by (simp only: nth_py_0 list.case)
qed

lemma device_error: "device nm = Inl e \<Longrightarrow> e = IndexError"
  unfolding device_def by (rule nth_py_error)

lemma device_number_no_digit:
  assumes "device nm = Inr d" and "\<not> list_ex is_digit d"
  shows "device_number nm = Inl IndexError"
proof -
  have digits: "filter (\<lambda>i. is_digit (d ! i)) [0..<length d] = []"
    using assms(2) by (auto simp: filter_empty_conv list_ex_iff)
  show ?thesis
  proof (cases "device d")
    case (Inl e)
    then show ?thesis
      using assms(1) device_error [OF Inl] by (simp add: device_number_def)
  next
    case (Inr dd)
    then show ?thesis
      using assms(1) digits by (simp add: device_number_def nth_py_def)
  qed
qed

lemma device_number_prefix:
  assumes p: "is_upper p" and ps: "list_all is_lower ps" and n: "0 \<le> n"
    and suf: "list_all (\<lambda>c. is_upper c \<or> c = CHR ''_'') suf"
  shows "device ((p # ps) @ py_str n @ suf) = Inr ((p # ps) @ py_str n)"
    and "device_number ((p # ps) @ py_str n @ suf) = Inr n"
proof -
  let ?str = "py_str n"
  let ?nd = "(p # ps) @ ?str"
  have str: "list_all is_digit ?str" "?str \<noteq> []"
    using n str_nat_digits [of "nat n"] by (simp_all add: py_str_def)
  have lowdig: "list_all is_lowdig (ps @ ?str)"
    using ps str(1) by (auto simp: list_all_iff is_lowdig_def)
  have stop: "suf = [] \<or> \<not> is_lowdig (hd suf)"
    using suf upper_not_lowdig underscore_not_lowdig by (cases suf) auto
  have parts_nm: "parts ((p # ps) @ ?str @ suf) = ?nd # parts suf"
    using parts_device_first [OF p lowdig stop] by simp
  show dev: "device ((p # ps) @ ?str @ suf) = Inr ?nd"
    by (simp only: device_def parts_nm nth_py_0 list.case)
  have parts_nd: "parts ?nd = [?nd]"
    using parts_single [OF p lowdig] by simp
  have dev_nd: "device ?nd = Inr ?nd"
    by (simp only: device_def parts_nd nth_py_0 list.case)
  have nodigit: "list_all (\<lambda>c. \<not> is_digit c) (p # ps)"
    using p ps upper_not_digit lower_not_digit by (auto simp: list_all_iff)
  have first: "nth_py (filter (\<lambda>i. is_digit (?nd ! i)) [0..<length ?nd]) 0 = Inr (length (p # ps))"
    by (rule first_digit_index [OF nodigit str(2) str(1)])
  have "device_number ((p # ps) @ ?str @ suf) = py_int (drop (length (p # ps)) ?nd)"
    unfolding device_number_def dev Let_def sum.case dev_nd first ..
  also have "\<dots> = py_int ?str"
    by simp
  also have "\<dots> = Inr n"
    using n by (rule py_int_py_str)
  finally show "device_number ((p # ps) @ ?str @ suf) = Inr n" .
qed

text \<open>
  C5, as amended. For every prefix \<open>[A-Z][a-z]*\<close>, here \<open>p # ps\<close>, every integer \<open>n\<close>
  from 1 to 100 and every suffix \<open>[A-Z_]*\<close>, the device number of
  prefix + str(n) + suffix is \<open>n\<close> and its device is prefix + str(n). And when the
  device of a name has no digit, \<open>device_number\<close> fails with the \<open>IndexError\<close> that
  \<open>digits[0]\<close> raises on the empty list; the code has no report of its own for a
  missing device number.
\<close>

theorem C5_device_number:
  "(is_upper p \<and> list_all is_lower ps \<and> 1 \<le> n \<and> n \<le> 100 \<and>
    list_all (\<lambda>c. is_upper c \<or> c = CHR ''_'') suf \<longrightarrow>
      device_number ((p # ps) @ py_str n @ suf) = Inr n \<and>
      device ((p # ps) @ py_str n @ suf) = Inr ((p # ps) @ py_str n)) \<and>
   (device nm = Inr d \<and> \<not> list_ex is_digit d \<longrightarrow> device_number nm = Inl IndexError)"
  using device_number_prefix [of p ps n suf] device_number_no_digit [of nm d]
  by auto

theorem C5_device_number_witness:
  "is_upper (CHR ''P'') \<and> list_all is_lower ''v'' \<and> (1::int) \<le> 11 \<and> (11::int) \<le> 100 \<and>
   list_all (\<lambda>c. is_upper c \<or> c = CHR ''_'') ''U_Q'' \<and>
   device_number (''Pv'' @ py_str 11 @ ''U_Q'') = Inr 11 \<and>
   device (''Pv'' @ py_str 11 @ ''U_Q'') = Inr (''Pv'' @ py_str 11) \<and>
   device ''GenP'' = Inr ''Gen'' \<and> \<not> list_ex is_digit ''Gen'' \<and>
   device_number ''GenP'' = Inl IndexError"
proof -
  have a: "is_upper (CHR ''P'')" by code_simp
  have b: "list_all is_lower ''v''" by code_simp
  have c: "list_all (\<lambda>c. is_upper c \<or> c = CHR ''_'') ''U_Q''" by code_simp
  have d: "device ''GenP'' = Inr ''Gen''" by code_simp
  have e: "\<not> list_ex is_digit ''Gen''" by code_simp
  have f: "(1::int) \<le> 11" and g: "(11::int) \<le> 100" by simp_all
  note t = C5_device_number [of "CHR ''P''" "''v''" 11 "''U_Q''" "''GenP''" "''Gen''"]
  note r1 = t [THEN conjunct1, THEN mp, OF conjI [OF a conjI [OF b conjI [OF f conjI [OF g c]]]]]
  note r2 = t [THEN conjunct2, THEN mp, OF conjI [OF d e]]
  show ?thesis
    by (intro conjI a b c d e f g r1 [THEN conjunct1] r1 [THEN conjunct2] r2)
qed

text \<open>The claim C5 as it stands fails where it names the error: for \<open>GenP\<close>, whose
  device \<open>Gen\<close> has no digit, \<open>device_number\<close> raises the plain \<open>IndexError\<close> of an
  index out of range, the very error it raises for the empty name, which has no
  device at all; nothing in it says that a device number is missing.\<close>

theorem C5_counterexample:
  "device ''GenP'' = Inr ''Gen'' \<and> \<not> list_ex is_digit ''Gen'' \<and>
   device_number ''GenP'' = Inl IndexError \<and>
   device '''' = Inl IndexError \<and>
   device_number '''' = Inl IndexError \<and>
   device_number ''GenP'' = device_number ''''"
proof -
  have a: "device ''GenP'' = Inr ''Gen''" by code_simp
  have b: "\<not> list_ex is_digit ''Gen''" by code_simp
  have c: "device_number ''GenP'' = Inl IndexError" by code_simp
  have d: "device '''' = Inl IndexError" by code_simp
  have e: "device_number '''' = Inl IndexError" by code_simp
  have f: "device_number ''GenP'' = device_number ''''" by (simp only: c e)
  show ?thesis
    by (intro conjI a b c d e f)
qed


section \<open>Properties of the case conversion\<close>


lemma to_upper_to_lower: "is_upper c \<Longrightarrow> to_upper (to_lower c) = c"
  by (simp add: to_upper_def to_lower_def is_upper_def is_lower_def)

lemma to_lower_lowdig: "is_lowdig c \<Longrightarrow> to_lower c = c"
  using upper_not_lowdig by (auto simp: to_lower_def)

lemma to_lower_not_underscore:
  assumes "is_upper c"
  shows "to_lower c \<noteq> CHR ''_''"
proof
  assume "to_lower c = CHR ''_''"
  then have "char_of ((of_char c :: nat) + 32) = CHR ''_''"
    using assms by (simp add: to_lower_def)
  then have "(of_char (char_of ((of_char c :: nat) + 32)) :: nat) = of_char (CHR ''_'')"
    by (simp only:)
  then have "((of_char c :: nat) + 32) mod 256 = 95"
    by simp
  then show False
    using assms by (simp add: is_upper_def)
qed

lemma to_lower_underscore: "to_lower (CHR ''_'') = CHR ''_''"
  by (simp add: to_lower_def is_upper_def)

lemma map_to_lower_lowdig: "list_all is_lowdig m \<Longrightarrow> map to_lower m = m"
  by (induction m) (simp_all add: to_lower_lowdig)

lemma lower_to_name_loop_lowdig:
  "list_all is_lowdig m \<Longrightarrow> lower_to_name_loop False r (m @ rest) = lower_to_name_loop False (r @ m) rest"
  by (induction m arbitrary: r) (simp_all add: lowdig_not_underscore)

lemma cased_rest:
  assumes "list_all (\<lambda>x. is_upper x \<or> is_lowdig x) cs"
  shows "cased (dropWhile is_lowdig cs)"
proof (cases "dropWhile is_lowdig cs")
  case Nil
  show ?thesis by (simp only: cased_def Nil list.case)
next
  case (Cons x xs)
  have "\<not> is_lowdig x"
    using Cons hd_dropWhile [of is_lowdig cs] by auto
  moreover have "set (x # xs) \<subseteq> set cs"
    using Cons set_dropWhileD [of _ is_lowdig cs] by auto
  ultimately show ?thesis
    using assms Cons by (auto simp: cased_def list_all_iff)
qed

lemma parts_nonempty: "is_upper c \<Longrightarrow> parts (c # cs) \<noteq> []"
  by (simp add: parts_upper)

lemma join_Cons: "join sep (x # xs) = (if xs = [] then x else x @ sep @ join sep xs)"
  by (cases xs) simp_all

lemma lower_to_name_parts:
  "cased s \<Longrightarrow>
   lower_to_name_loop True r (map to_lower (join ''_'' (parts s))) = r @ s"
proof (induction s arbitrary: r rule: parts_induct)
  case Nil
  show ?case by (simp add: parts_Nil)
next
  case (Upper c cs)
  let ?m = "takeWhile is_lowdig cs"
  let ?rest = "dropWhile is_lowdig cs"
  from Upper.prems have cs: "list_all (\<lambda>x. is_upper x \<or> is_lowdig x) cs"
    by (simp add: cased_def)
  have rest: "cased ?rest" by (rule cased_rest [OF cs])
  have m: "list_all is_lowdig ?m"
    by (auto simp: list_all_iff dest: set_takeWhileD)
  have first: "lower_to_name_loop True r (map to_lower (c # ?m) @ tail) =
      lower_to_name_loop False (r @ c # ?m) tail" for tail
    using Upper.hyps to_lower_not_underscore [of c] lower_to_name_loop_lowdig [OF m]
    by (simp add: to_upper_to_lower map_to_lower_lowdig [OF m])
  show ?case
  proof (cases "?rest = []")
    case True
    have "cs = ?m @ ?rest" by simp
    also have "\<dots> = ?m" by (simp only: True append_Nil2)
    finally have eq: "r @ c # ?m = r @ c # cs" by simp
    have p: "parts (c # cs) = [c # ?m]"
      by (simp only: parts_upper [OF Upper.hyps] True parts_Nil)
    have "lower_to_name_loop True r (map to_lower (join ''_'' (parts (c # cs)))) =
        lower_to_name_loop True r (map to_lower (c # ?m) @ [])"
      by (simp only: p join.simps append_Nil2)
    also have "\<dots> = lower_to_name_loop False (r @ c # ?m) []"
      by (rule first)
    also have "\<dots> = r @ c # ?m"
      by simp
    finally show ?thesis
      using eq by simp
  next
    case False
    then obtain x xs where x: "?rest = x # xs" by (cases ?rest) auto
    then have ux: "is_upper x"
      using rest by (simp add: cased_def)
    have ne: "parts ?rest \<noteq> []"
      using parts_nonempty [OF ux] x by simp
    have "map to_lower (join ''_'' (parts (c # cs))) =
        map to_lower (c # ?m) @ CHR ''_'' # map to_lower (join ''_'' (parts ?rest))"
      using ne by (simp add: parts_upper [OF Upper.hyps] join_Cons to_lower_underscore)
    then have "lower_to_name_loop True r (map to_lower (join ''_'' (parts (c # cs)))) =
        lower_to_name_loop True r (map to_lower (c # ?m) @ CHR ''_'' # map to_lower (join ''_'' (parts ?rest)))"
      by (simp only:)
    also have "\<dots> = lower_to_name_loop False (r @ c # ?m) (CHR ''_'' # map to_lower (join ''_'' (parts ?rest)))"
      by (rule first)
    also have "\<dots> = lower_to_name_loop True (r @ c # ?m) (map to_lower (join ''_'' (parts ?rest)))"
      by simp
    also have "\<dots> = (r @ c # ?m) @ ?rest"
      by (rule Upper.IH [OF rest])
    also have "\<dots> = r @ c # cs"
      by simp
    finally show ?thesis .
  qed
next
  case (Other c cs)
  then show ?case by (simp add: cased_def)
qed

text \<open>
  C7. For every name of the shape \<open>[A-Z][A-Za-z0-9]*\<close>, here \<open>c # cs\<close>,
  \<open>name_to_lower\<close> returns a string that \<open>lower_to_name\<close> maps back to the name.
\<close>

theorem C7_case_roundtrip:
  assumes "is_upper c" and "list_all (\<lambda>x. is_upper x \<or> is_lower x \<or> is_digit x) cs"
  shows "\<exists>l. name_to_lower (c # cs) = Inr l \<and> lower_to_name l = c # cs"
proof -
  have "cased (c # cs)"
    using assms by (auto simp: cased_def is_lowdig_def list_all_iff)
  then have "lower_to_name (map to_lower (join ''_'' (parts (c # cs)))) = c # cs"
    using lower_to_name_parts [of "c # cs" "[]"] by (simp add: lower_to_name_def)
  then show ?thesis
    by (simp add: name_to_lower_def valid_name_def)
qed

theorem C7_case_roundtrip_witness:
  "is_upper (CHR ''W'') \<and>
   list_all (\<lambda>x. is_upper x \<or> is_lower x \<or> is_digit x) ''tg1InvInlet2InvTemp'' \<and>
   name_to_lower ''Wtg1InvInlet2InvTemp'' = Inr ''wtg1_inv_inlet2_inv_temp'' \<and>
   lower_to_name ''wtg1_inv_inlet2_inv_temp'' = ''Wtg1InvInlet2InvTemp''"
proof -
  have a: "is_upper (CHR ''W'')" by code_simp
  have b: "list_all (\<lambda>x. is_upper x \<or> is_lower x \<or> is_digit x) ''tg1InvInlet2InvTemp''"
    by code_simp
  have c: "name_to_lower ''Wtg1InvInlet2InvTemp'' = Inr ''wtg1_inv_inlet2_inv_temp''"
    by code_simp
  from C7_case_roundtrip [OF a b] obtain l
    where "name_to_lower ''Wtg1InvInlet2InvTemp'' = Inr l"
      and "lower_to_name l = ''Wtg1InvInlet2InvTemp''"
    by blast
  with c have "lower_to_name ''wtg1_inv_inlet2_inv_temp'' = ''Wtg1InvInlet2InvTemp''"
    by simp
  with a b c show ?thesis by (intro conjI)
qed



section \<open>Properties of the grammar expansion\<close>


lemma add_result_Inl: "add_result rec u (Inl e) = Inl e"
  by (simp add: add_result_def)

lemma add_result_fail: "rec u = Inl e \<Longrightarrow> add_result rec u (Inr A) = Inl e"
  by (simp add: add_result_def)

lemma add_result_ok: "rec u = Inr R \<Longrightarrow> add_result rec u (Inr A) = Inr (A \<union> R)"
  by (simp add: add_result_def)

lemma fold_add_result_Inl: "fold (add_result rec) us (Inl e) = Inl e"
  by (induction us) (simp_all add: add_result_def)

lemma inner_loop:
  "fold (\<lambda>c results.
      (case results of
         Inl e \<Rightarrow> Inl e
       | Inr res \<Rightarrow>
           (let u = replace1 s lhs c in
            if u \<noteq> s then
              (case rec u of Inl e \<Rightarrow> Inl e | Inr r \<Rightarrow> Inr (res \<union> r))
            else Inr res))) alts acc =
   fold (add_result rec) (filter (\<lambda>u. u \<noteq> s) (map (\<lambda>c. replace1 s lhs c) alts)) acc"
proof (induction alts arbitrary: acc)
  case Nil
  show ?case by simp
next
  case (Cons c alts)
  show ?case
    by (cases acc) (simp_all add: Cons.IH add_result_def Let_def)
qed

lemma outer_loop_add:
  "fold (\<lambda>(lhs, rhs) results.
      fold (add_result rec)
        (filter (\<lambda>u. u \<noteq> s) (map (\<lambda>c. replace1 s lhs c) (split_char (CHR ''|'') rhs)))
        results) rules acc =
   fold (add_result rec) (rewritten rules s) acc"
proof (induction rules arbitrary: acc)
  case Nil
  show ?case by (simp add: rewritten_def)
next
  case (Cons rule rules)
  obtain lhs rhs where rule: "rule = (lhs, rhs)" by (cases rule)
  have r: "rewritten ((lhs, rhs) # rules) s =
      filter (\<lambda>u. u \<noteq> s) (map (\<lambda>c. replace1 s lhs c) (split_char (CHR ''|'') rhs)) @
      rewritten rules s"
    by (simp add: rewritten_def)
  show ?case
    by (simp add: rule r Cons.IH)
qed

lemma outer_loop:
  "fold (\<lambda>(lhs, rhs) results.
      fold (\<lambda>c results.
        (case results of
           Inl e \<Rightarrow> Inl e
         | Inr res \<Rightarrow>
             (let u = replace1 s lhs c in
              if u \<noteq> s then
                (case rec u of Inl e \<Rightarrow> Inl e | Inr r \<Rightarrow> Inr (res \<union> r))
              else Inr res)))
        (split_char (CHR ''|'') rhs) results) rules acc =
   fold (add_result rec) (rewritten rules s) acc"
  by (simp only: inner_loop outer_loop_add)

lemma expand_rules_Suc:
  "expand_rules (Suc n) rules s =
     (if finished s then Inr {s}
      else fold (add_result (expand_rules n rules)) (rewritten rules s) (Inr {}))"
  by (simp add: outer_loop)

declare expand_rules.simps(2) [simp del]

lemma fold_add_result_Inr:
  assumes "\<forall>u\<in>set us. rec u = Inr (f u)"
  shows "fold (add_result rec) us (Inr A) = Inr (A \<union> (\<Union>u\<in>set us. f u))"
  using assms
proof (induction us arbitrary: A)
  case Nil
  show ?case by simp
next
  case (Cons u us)
  then show ?case
    by (simp add: add_result_def Un_assoc)
qed

lemma fold_add_result_fail:
  assumes "u \<in> set us" and "rec u = Inl e" and "\<forall>u e. rec u = Inl e \<longrightarrow> e = RecursionError"
  shows "fold (add_result rec) us acc = Inl RecursionError \<or>
         (\<exists>e. acc = Inl e \<and> fold (add_result rec) us acc = Inl e)"
  using assms(1)
proof (induction us arbitrary: acc)
  case Nil
  then show ?case by simp
next
  case (Cons v us)
  show ?case
  proof (cases acc)
    case (Inl e')
    then show ?thesis by (simp add: add_result_Inl fold_add_result_Inl)
  next
    case (Inr A)
    show ?thesis
    proof (cases "rec v")
      case (Inl e')
      then have "e' = RecursionError" using assms(3) by blast
      then show ?thesis
        using Inl Inr by (simp add: add_result_fail fold_add_result_Inl)
    next
      case r: (Inr R)
      then have "v \<noteq> u" using assms(2) by auto
      then have "u \<in> set us" using Cons.prems by simp
      from Cons.IH [OF this, of "Inr (A \<union> R)"] show ?thesis
        using Inr r by (simp add: add_result_ok)
    qed
  qed
qed

lemma expand_rules_error: "expand_rules n rules s = Inl e \<Longrightarrow> e = RecursionError"
proof (induction n arbitrary: s e)
  case 0
  then show ?case by simp
next
  case (Suc n)
  show ?case
  proof (cases "finished s")
    case True
    then show ?thesis using Suc.prems by (simp add: expand_rules_Suc)
  next
    case False
    let ?rec = "expand_rules n rules"
    let ?us = "rewritten rules s"
    have fold: "fold (add_result ?rec) ?us (Inr {}) = Inl e"
      using Suc.prems False by (simp only: expand_rules_Suc if_False)
    show ?thesis
    proof (cases "\<exists>u\<in>set ?us. \<exists>e'. ?rec u = Inl e'")
      case True
      then obtain u e' where "u \<in> set ?us" and "?rec u = Inl e'" by blast
      from fold_add_result_fail [where rec = ?rec and acc = "Inr {}", OF this] Suc.IH fold
      show ?thesis by auto
    next
      case False
      then have "\<forall>u\<in>set ?us. ?rec u = Inr (projr (?rec u))"
        by (metis sum.collapse(2) sum.exhaust_sel)
      from fold_add_result_Inr [OF this, of "{}"] fold show ?thesis by simp
    qed
  qed
qed



lemma find_char_absent: "find_char s c = - 1 \<longleftrightarrow> c \<notin> set s"
proof (induction s)
  case Nil
  show ?case by simp
next
  case (Cons x xs)
  have "0 \<le> find_char ys c \<or> find_char ys c = - 1" for ys
    by (induction ys) (auto simp: Let_def)
  from this [of xs] show ?case
    using Cons by (auto simp: Let_def)
qed

lemma finished_iff: "finished s \<longleftrightarrow> CHR ''<'' \<notin> set s \<and> CHR ''|'' \<notin> set s"
  by (simp add: finished_def find_char_absent)

lemma find_sub_Some:
  "find_sub old s = Some i \<Longrightarrow>
     i \<le> length s \<and> prefix old (drop i s) \<and> (\<forall>j<i. \<not> prefix old (drop j s))"
proof (induction s arbitrary: i)
  case Nil
  then show ?case by (simp split: if_splits)
next
  case (Cons x xs)
  show ?case
  proof (cases "prefix old (x # xs)")
    case True
    then show ?thesis using Cons.prems by simp
  next
    case False
    then obtain k where k: "find_sub old xs = Some k" and i: "i = Suc k"
      using Cons.prems by auto
    from Cons.IH [OF k] have ih: "k \<le> length xs" "prefix old (drop k xs)"
      "\<forall>j<k. \<not> prefix old (drop j xs)" by auto
    have "\<not> prefix old (drop j (x # xs))" if "j < Suc k" for j
      using that False ih(3) by (cases j) auto
    then show ?thesis
      using ih i by simp
  qed
qed

lemma find_sub_None: "find_sub old s = None \<Longrightarrow> \<not> prefix old (drop j s)"
proof (induction s arbitrary: j)
  case Nil
  then show ?case by (simp split: if_splits)
next
  case (Cons x xs)
  then show ?case
    by (cases j) (auto split: if_splits)
qed

text \<open>\<open>replace1\<close> replaces the first occurrence: the string is cut where \<open>old\<close> occurs
  and at no earlier index.\<close>

lemma replace1_first:
  "(\<exists>a b. s = a @ old @ b \<and> (\<forall>j<length a. \<not> prefix old (drop j s)) \<and>
           replace1 s old new = a @ new @ b) \<or>
   ((\<forall>j. \<not> prefix old (drop j s)) \<and> replace1 s old new = s)"
proof (cases "find_sub old s")
  case None
  then show ?thesis
    using find_sub_None [OF None] by (simp add: replace1_def)
next
  case (Some i)
  from find_sub_Some [OF Some] have i: "i \<le> length s" and p: "prefix old (drop i s)"
    and first: "\<forall>j<i. \<not> prefix old (drop j s)" by auto
  from p obtain b where b: "drop i s = old @ b" by (auto simp: prefix_def)
  have d: "drop (i + length old) s = b"
    using b by (metis add.commute append_eq_conv_conj drop_drop)
  have 1: "s = take i s @ old @ b"
    using b by (metis append_take_drop_id)
  have 2: "\<forall>j<length (take i s). \<not> prefix old (drop j s)"
    using first i by simp
  have 3: "replace1 s old new = take i s @ new @ b"
    using Some d by (simp add: replace1_def)
  from 1 2 3 show ?thesis by blast
qed

lemma expand_rules_mono:
  "expand_rules n rules s = Inr R \<Longrightarrow> expand_rules (Suc n) rules s = Inr R"
proof (induction n arbitrary: s R)
  case 0
  then show ?case by simp
next
  case (Suc n)
  show ?case
  proof (cases "finished s")
    case True
    then show ?thesis using Suc.prems by (simp add: expand_rules_Suc)
  next
    case False
    let ?us = "rewritten rules s"
    have fold: "fold (add_result (expand_rules n rules)) ?us (Inr {}) = Inr R"
      using Suc.prems False by (simp only: expand_rules_Suc if_False)
    have ok: "\<exists>r. expand_rules n rules u = Inr r" if "u \<in> set ?us" for u
    proof (cases "expand_rules n rules u")
      case (Inl e)
      from fold_add_result_fail [where rec = "expand_rules n rules" and acc = "Inr {}", OF that Inl]
        expand_rules_error fold
      show ?thesis by auto
    next
      case (Inr r)
      then show ?thesis by simp
    qed
    define f where "f u = projr (expand_rules n rules u)" for u
    have "expand_rules n rules u = Inr (f u)" if "u \<in> set ?us" for u
      using ok [OF that] by (elim exE) (simp add: f_def)
    then have n: "\<forall>u\<in>set ?us. expand_rules n rules u = Inr (f u)"
      by blast
    then have m: "\<forall>u\<in>set ?us. expand_rules (Suc n) rules u = Inr (f u)"
      using Suc.IH by blast
    have "Inr R = Inr ({} \<union> (\<Union>u\<in>set ?us. f u))"
      using fold_add_result_Inr [OF n, of "{}"] fold by simp
    moreover have "expand_rules (Suc (Suc n)) rules s = Inr ({} \<union> (\<Union>u\<in>set ?us. f u))"
      using False fold_add_result_Inr [OF m, of "{}"]
      by (simp only: expand_rules_Suc [of "Suc n"] if_False)
    ultimately show ?thesis by simp
  qed
qed

text \<open>A result does not depend on the depth that is allowed.\<close>

lemma expand_rules_mono_le:
  "n \<le> m \<Longrightarrow> expand_rules n rules s = Inr R \<Longrightarrow> expand_rules m rules s = Inr R"
proof (induction m)
  case 0
  then show ?case by simp
next
  case (Suc m)
  show ?case
  proof (cases "n = Suc m")
    case True
    then show ?thesis using Suc.prems by simp
  next
    case False
    then have "n \<le> m" using Suc.prems by simp
    then have "expand_rules m rules s = Inr R" using Suc by simp
    then show ?thesis by (rule expand_rules_mono)
  qed
qed

lemma expand_rules_deterministic:
  assumes "expand_rules n rules s = Inr R" and "expand_rules m rules s = Inr R'"
  shows "R = R'"
proof (cases "n \<le> m")
  case True
  from expand_rules_mono_le [OF True assms(1)] assms(2) show ?thesis by simp
next
  case False
  then have "m \<le> n" by simp
  from expand_rules_mono_le [OF this assms(2)] assms(1) show ?thesis by simp
qed

lemma expand_rules_unfold:
  "expand_rules (Suc n) rules s =
     (if finished s then Inr {s}
      else if \<forall>u\<in>set (rewritten rules s). \<exists>r. expand_rules n rules u = Inr r
      then Inr (\<Union>u\<in>set (rewritten rules s). projr (expand_rules n rules u))
      else Inl RecursionError)"
proof (cases "finished s")
  case True
  then show ?thesis
    by (simp add: expand_rules_Suc)
next
  case False
  let ?rec = "expand_rules n rules"
  let ?us = "rewritten rules s"
  have unfold: "expand_rules (Suc n) rules s = fold (add_result ?rec) ?us (Inr {})"
    using False by (simp only: expand_rules_Suc if_False)
  show ?thesis
  proof (cases "\<forall>u\<in>set ?us. \<exists>r. ?rec u = Inr r")
    case True
    have "?rec u = Inr (projr (?rec u))" if "u \<in> set ?us" for u
      using True that by (auto elim!: ballE [of _ _ u])
    then have "\<forall>u\<in>set ?us. ?rec u = Inr (projr (?rec u))"
      by blast
    from fold_add_result_Inr [OF this, of "{}"] show ?thesis
      using False True unfold by simp
  next
    case all: False
    then obtain u e where u: "u \<in> set ?us" and e: "?rec u = Inl e"
      by (metis sum.exhaust)
    from fold_add_result_fail [where rec = ?rec and acc = "Inr {}", OF u e] expand_rules_error
    have "fold (add_result ?rec) ?us (Inr {}) = Inl RecursionError"
      by auto
    then show ?thesis
      using False all unfold by simp
  qed
qed

text \<open>
  C2. With at least one more nested call allowed, \<open>expand_rules(rules, s)\<close> is \<open>{s}\<close>
  when \<open>s\<close> contains neither \<open><\<close> nor \<open>|\<close>. Otherwise it is the union of the
  results of \<open>expand_rules\<close>, called one level deeper, on the strings \<open>rewritten rules s\<close>:
  for every rule and every alternative of its right-hand side, \<open>s\<close> with the first
  occurrence of the left-hand side replaced by the alternative, where that is not \<open>s\<close>
  itself; and it fails as soon as one of these calls fails, which only the recursion
  limit can cause. By \<open>expand_rules_deterministic\<close> a result does not depend on the
  depth allowed.
\<close>

theorem C2_expand_rules:
  "expand_rules (Suc n) rules s =
     (if CHR ''<'' \<notin> set s \<and> CHR ''|'' \<notin> set s then Inr {s}
      else if \<forall>u\<in>set (rewritten rules s). \<exists>r. expand_rules n rules u = Inr r
      then Inr (\<Union>u\<in>set (rewritten rules s). projr (expand_rules n rules u))
      else Inl RecursionError)"
  unfolding finished_iff [symmetric] by (rule expand_rules_unfold)

theorem C2_expand_rules_witness:
  "expand_rules (Suc (Suc 0)) [(''<s>'', ''hello|world'')] ''<s>'' = Inr {''hello'', ''world''}"
proof -
  let ?R = "[(''<s>'', ''hello|world'')]"
  have r: "rewritten ?R ''<s>'' = [''hello'', ''world'']" by code_simp
  have h: "expand_rules (Suc 0) ?R ''hello'' = Inr {''hello''}" by code_simp
  have w: "expand_rules (Suc 0) ?R ''world'' = Inr {''world''}" by code_simp
  show ?thesis
    using C2_expand_rules [of "Suc 0" ?R "''<s>''"] by (simp add: r h w insert_commute)
qed

text \<open>
  C9. For an unfinished string \<open>s\<close> (one that contains \<open><\<close> or \<open>|\<close>) that no rule and
  alternative rewrites to a different string, \<open>expand_rules\<close> returns the empty set, and
  raises no error, whenever one call is allowed at all.
\<close>

theorem C9_undefined_nonterminal:
  assumes "CHR ''<'' \<in> set s \<or> CHR ''|'' \<in> set s"
    and "\<forall>(lhs, rhs)\<in>set rules. \<forall>c\<in>set (split_char (CHR ''|'') rhs). replace1 s lhs c = s"
  shows "expand_rules (Suc n) rules s = Inr {}"
proof -
  have "filter (\<lambda>u. u \<noteq> s) (map (\<lambda>c. replace1 s lhs c) (split_char (CHR ''|'') rhs)) = []"
    if "(lhs, rhs) \<in> set rules" for lhs rhs
    using assms(2) that by (auto simp: filter_empty_conv)
  then have "rewritten rules s = []"
    by (auto simp: rewritten_def)
  moreover have "\<not> finished s"
    using assms(1) by (auto simp: finished_iff)
  ultimately show ?thesis
    by (simp add: expand_rules_Suc)
qed

theorem C9_undefined_nonterminal_witness:
  "CHR ''<'' \<in> set ''x<b>'' \<and>
   split_char (CHR ''|'') ''y|z'' = [''y'', ''z''] \<and>
   replace1 ''x<b>'' ''<a>'' ''y'' = ''x<b>'' \<and>
   replace1 ''x<b>'' ''<a>'' ''z'' = ''x<b>'' \<and>
   expand_rules (Suc 0) [(''<a>'', ''y|z'')] ''x<b>'' = Inr {}"
proof -
  have a: "CHR ''<'' \<in> set ''x<b>''" by simp
  have s: "split_char (CHR ''|'') ''y|z'' = [''y'', ''z'']" by code_simp
  have y: "replace1 ''x<b>'' ''<a>'' ''y'' = ''x<b>''" by code_simp
  have z: "replace1 ''x<b>'' ''<a>'' ''z'' = ''x<b>''" by code_simp
  have b: "\<forall>(lhs, rhs)\<in>set [(''<a>'', ''y|z'')].
      \<forall>c\<in>set (split_char (CHR ''|'') rhs). replace1 ''x<b>'' lhs c = ''x<b>''"
    using y z by (simp add: s)
  note r = C9_undefined_nonterminal [OF disjI1 [OF a] b, of 0]
  show ?thesis
    by (intro conjI a s y z r)
qed



section \<open>Properties of the grammar parser\<close>

lemma bnf_line_definition:
  "bnf_line g l = (case definition_of l of None \<Rightarrow> g | Some (k, v) \<Rightarrow> AList.update k v g)"
  by (simp add: bnf_line_def definition_of_def Let_def)

lemma bnf_line_other:
  assumes "\<forall>v'. definition_of l \<noteq> Some (k, v')"
  shows "map_of (bnf_line g l) k = map_of g k"
proof (cases "definition_of l")
  case None
  then show ?thesis by (simp add: bnf_line_definition)
next
  case (Some kv)
  obtain k' v' where kv: "kv = (k', v')" by (cases kv)
  with Some assms have "k' \<noteq> k" by auto
  then show ?thesis
    using Some kv by (simp add: bnf_line_definition update_conv')
qed

lemma bnf_lines_other:
  assumes "\<forall>l\<in>set ls. \<forall>v'. definition_of l \<noteq> Some (k, v')"
  shows "map_of (foldl bnf_line g ls) k = map_of g k"
  using assms by (induction ls arbitrary: g) (simp_all add: bnf_line_other)

lemma bnf_lines_last_definition:
  assumes "definition_of l = Some (k, v)"
    and "\<forall>l'\<in>set after. \<forall>v'. definition_of l' \<noteq> Some (k, v')"
  shows "map_of (foldl bnf_line g (before @ l # after)) k = Some v"
proof -
  have "map_of (foldl bnf_line g (before @ l # after)) k =
      map_of (bnf_line (foldl bnf_line g before) l) k"
    using bnf_lines_other [OF assms(2)] by simp
  then show ?thesis
    using assms(1) by (simp add: bnf_line_definition update_conv')
qed

lemma expand_bnf_world:
  "expand_bnf (Suc (Suc n)) (''<s> ::= hello'' @ [CHR 0x0A] @ ''<s> ::= world'') ''<s>'' =
     Inr [''world'']"
proof -
  let ?R = "[(''<s>'', ''world'')]"
  have g: "bnf_to_rules (''<s> ::= hello'' @ [CHR 0x0A] @ ''<s> ::= world'') = ?R"
    by code_simp
  have r: "rewritten ?R ''<s>'' = [''world'']" by code_simp
  have f: "finished ''world''" by code_simp
  have nf: "\<not> finished ''<s>''" by code_simp
  have w: "expand_rules (Suc n) ?R ''world'' = Inr {''world''}"
    using f by (simp add: expand_rules_unfold)
  have "expand_rules (Suc (Suc n)) ?R ''<s>'' = Inr {''world''}"
    using nf by (simp add: expand_rules_unfold [of "Suc n"] r w)
  then show ?thesis
    unfolding expand_bnf_def g by simp
qed

text \<open>
  C3. When the line \<open>l\<close> of a grammar defines \<open>k\<close> as \<open>v\<close> and no later line defines
  \<open>k\<close>, the table of \<open>bnf_to_rules\<close> maps \<open>k\<close> to \<open>v\<close>, whatever the earlier lines
  define: a later definition replaces an earlier one. In particular the grammar of the
  two lines \<open><s> ::= hello\<close> and \<open><s> ::= world\<close> expands from \<open><s>\<close> to the list of
  the one string \<open>world\<close>, at every depth of two nested calls or more.
\<close>

theorem C3_redefinition_overwrites:
  "(splitlines grammar = before @ l # after \<and> definition_of l = Some (k, v) \<and>
    (\<forall>l'\<in>set after. \<forall>v'. definition_of l' \<noteq> Some (k, v')) \<longrightarrow>
      map_of (bnf_to_rules grammar) k = Some v) \<and>
   expand_bnf (Suc (Suc n)) (''<s> ::= hello'' @ [CHR 0x0A] @ ''<s> ::= world'') ''<s>'' =
     Inr [''world'']"
  using bnf_lines_last_definition [of l k v after "[]" before] expand_bnf_world [of n]
  by (simp add: bnf_to_rules_def)

theorem C3_redefinition_overwrites_witness:
  "splitlines (''<s> ::= hello'' @ [CHR 0x0A] @ ''<s> ::= world'' @ [CHR 0x0A] @ ''<t> ::= x'') =
     [''<s> ::= hello''] @ ''<s> ::= world'' # [''<t> ::= x''] \<and>
   definition_of ''<s> ::= world'' = Some (''<s>'', ''world'') \<and>
   definition_of ''<t> ::= x'' = Some (''<t>'', ''x'') \<and>
   map_of (bnf_to_rules
     (''<s> ::= hello'' @ [CHR 0x0A] @ ''<s> ::= world'' @ [CHR 0x0A] @ ''<t> ::= x'')) ''<s>'' =
     Some ''world''"
proof -
  let ?G = "''<s> ::= hello'' @ [CHR 0x0A] @ ''<s> ::= world'' @ [CHR 0x0A] @ ''<t> ::= x''"
  have a: "splitlines ?G = [''<s> ::= hello''] @ ''<s> ::= world'' # [''<t> ::= x'']"
    by code_simp
  have b: "definition_of ''<s> ::= world'' = Some (''<s>'', ''world'')" by code_simp
  have d: "definition_of ''<t> ::= x'' = Some (''<t>'', ''x'')" by code_simp
  have c: "\<forall>l'\<in>set [''<t> ::= x'']. \<forall>v'. definition_of l' \<noteq> Some (''<s>'', v')"
    by (simp add: d)
  note t = C3_redefinition_overwrites [of ?G "[''<s> ::= hello'']" "''<s> ::= world''"
      "[''<t> ::= x'']" "''<s>''" "''world''" 0]
  note r = t [THEN conjunct1, THEN mp, OF conjI [OF a conjI [OF b c]]]
  show ?thesis
    by (intro conjI a b d r)
qed



section \<open>Properties of matching, reading and registering\<close>


lemma match_empty_pattern: "match v [] \<longleftrightarrow> v = []"
  by (simp add: match_def fnmatchcase_def)

lemma names_f_empty_excludes:
  assumes "v \<noteq> []"
  shows "names_f only [] device_pat onlybig v =
     (if \<not> match v only then Inr False
      else (case device v of
              Inl e \<Rightarrow> Inl e
            | Inr d \<Rightarrow>
                if \<not> match d device_pat then Inr False
                else if onlybig then bigname v else Inr True))"
  using assms by (simp add: names_f_def match_empty_pattern)

text \<open>
  C4, as amended. The empty pattern has one alternative, the empty string, which
  matches the empty string and nothing else: for every value \<open>v\<close> that is not empty,
  \<open>match(v, "")\<close> is false, and the filter of \<open>names\<close> with an empty \<open>excludes\<close> decides
  on \<open>v\<close> as the other three conditions do; and \<open>match("", "")\<close> is true.
\<close>

theorem C4_empty_pattern:
  "(v \<noteq> [] \<longrightarrow>
      \<not> match v [] \<and>
      names_f only [] device_pat onlybig v =
        (if \<not> match v only then Inr False
         else (case device v of
                 Inl e \<Rightarrow> Inl e
               | Inr d \<Rightarrow>
                   if \<not> match d device_pat then Inr False
                   else if onlybig then bigname v else Inr True))) \<and>
   match [] []"
  using names_f_empty_excludes [of v only device_pat onlybig]
  by (simp add: match_empty_pattern)

theorem C4_empty_pattern_witness:
  "''Gen1P'' \<noteq> [] \<and> \<not> match ''Gen1P'' [] \<and>
   names_f ''*'' [] ''Gen*'' True ''Gen1P'' = Inr True"
proof -
  have a: "''Gen1P'' \<noteq> []" by simp
  have m: "match ''Gen1P'' ''*''" by code_simp
  have d: "device ''Gen1P'' = Inr ''Gen1''" by code_simp
  have g: "match ''Gen1'' ''Gen*''" by code_simp
  have b: "bigname ''Gen1P'' = Inr True" by code_simp
  note t = C4_empty_pattern [of "''Gen1P''" "''*''" "''Gen*''" True,
      THEN conjunct1, THEN mp, OF a]
  have "names_f ''*'' [] ''Gen*'' True ''Gen1P'' = Inr True"
    unfolding t [THEN conjunct2] by (simp only: m d g b not_True_eq_False if_False if_True sum.case)
  with a t [THEN conjunct1] show ?thesis by (intro conjI)
qed

text \<open>The claim C4 as it stands fails for the empty string: the empty pattern matches
  it, and \<open>names\<close> with an empty \<open>excludes\<close> leaves a registered empty name out.\<close>

theorem C4_counterexample:
  "\<not> (\<not> match '''' '''') \<and>
   names_f ''*'' '''' ''*'' False '''' = Inr False"
  by (simp add: match_empty_pattern names_f_def)

lemma read_rows_bad:
  "\<exists>row\<in>set rows. length row \<noteq> 0 \<and> length row \<noteq> 4 \<and> length row \<noteq> 5 \<Longrightarrow>
   read_rows line g st rows = Inl (SystemExit 1)"
proof (induction rows arbitrary: line g st)
  case Nil
  then show ?case by simp
next
  case (Cons row rows)
  show ?case
  proof (cases "length row \<noteq> 0 \<and> length row \<noteq> 4 \<and> length row \<noteq> 5")
    case True
    then show ?thesis by (simp add: Let_def)
  next
    case False
    then have "\<exists>row\<in>set rows. length row \<noteq> 0 \<and> length row \<noteq> 4 \<and> length row \<noteq> 5"
      using Cons.prems by auto
    note ih = Cons.IH [OF this]
    from False show ?thesis
      by (auto simp: Let_def ih split: prod.splits)
  qed
qed

lemma read_rows_good:
  "\<forall>row\<in>set rows. length row = 0 \<or> length row = 4 \<or> length row = 5 \<Longrightarrow>
   \<exists>g' st'. read_rows line g st rows = Inr (g', st')"
proof (induction rows arbitrary: line g st)
  case Nil
  then show ?case by simp
next
  case (Cons row rows)
  then have ih: "\<exists>g' st'. read_rows line' g1 st1 rows = Inr (g', st')" for line' g1 st1
    by simp
  from Cons.prems have "length row = 0 \<or> length row = 4 \<or> length row = 5"
    by simp
  then show ?case
    using ih by (auto simp: Let_def split: prod.splits)
qed

lemma read_rows_four:
  "length row = 4 \<Longrightarrow>
   read_rows line g st (row # rows) = read_rows line g st ((row @ [[]]) # rows)"
  by (simp add: Let_def)

lemma read_rows_empty: "read_rows line g st ([] # rows) = read_rows (line + 1) g st rows"
  by simp

text \<open>
  C8, as amended. \<open>read_description\<close> ends with \<open>exit(1)\<close> when some row has a number of
  fields other than 0, 4 and 5, and returns when every row has 0, 4 or 5 fields; a
  row of four fields is read as the row with an empty fifth field added; and a row
  of no fields is skipped: it only counts as a line.
\<close>

theorem C8_malformed_rows:
  "((\<exists>row\<in>set rows. length row \<noteq> 0 \<and> length row \<noteq> 4 \<and> length row \<noteq> 5) \<longrightarrow>
      read_description rows st = Inl (SystemExit 1)) \<and>
   ((\<forall>row\<in>set rows. length row = 0 \<or> length row = 4 \<or> length row = 5) \<longrightarrow>
      (\<exists>g' st'. read_description rows st = Inr (g', st'))) \<and>
   (length row = 4 \<longrightarrow>
      read_rows line g st (row # rows) = read_rows line g st ((row @ [[]]) # rows)) \<and>
   read_rows line g st ([] # rows) = read_rows (line + 1) g st rows"
  using read_rows_bad [of rows 0 "[]" st] read_rows_good [of rows 0 "[]" st]
    read_rows_four [of row line g st rows] read_rows_empty [of line g st rows]
  by (simp add: read_description_def)

theorem C8_malformed_rows_witness:
  "map length [[''Name'', ''Rule'', ''Units'', ''Short'', ''Long''], [''<X>'', ''a'', ''b'']] =
     [5, 3] \<and>
   read_description [[''Name'', ''Rule'', ''Units'', ''Short'', ''Long''], [''<X>'', ''a'', ''b'']]
     clear_names = Inl (SystemExit 1) \<and>
   map length [[''Name'', ''Rule'', ''Units'', ''Short'', ''Long''], [],
     [''P'', ''p'', ''kW'', ''Power'']] = [5, 0, 4] \<and>
   (\<exists>g' st'. read_description
      [[''Name'', ''Rule'', ''Units'', ''Short'', ''Long''], [], [''P'', ''p'', ''kW'', ''Power'']]
      clear_names = Inr (g', st')) \<and>
   length [''P'', ''p'', ''kW'', ''Power''] = 4 \<and>
   read_rows 1 [] clear_names ([''P'', ''p'', ''kW'', ''Power''] # []) =
     read_rows 1 [] clear_names (([''P'', ''p'', ''kW'', ''Power''] @ [[]]) # [])"
proof -
  let ?B = "[[''Name'', ''Rule'', ''Units'', ''Short'', ''Long''], [''<X>'', ''a'', ''b'']]"
  let ?G = "[[''Name'', ''Rule'', ''Units'', ''Short'', ''Long''], [], [''P'', ''p'', ''kW'', ''Power'']]"
  let ?r = "[''P'', ''p'', ''kW'', ''Power'']"
  have lb: "map length ?B = [5, 3]" by simp
  have lg: "map length ?G = [5, 0, 4]" by simp
  have b: "\<exists>row\<in>set ?B. length row \<noteq> 0 \<and> length row \<noteq> 4 \<and> length row \<noteq> 5"
    by simp
  have g: "\<forall>row\<in>set ?G. length row = 0 \<or> length row = 4 \<or> length row = 5"
    by simp
  have r: "length ?r = 4" by simp
  note t1 = C8_malformed_rows [where rows = ?B and st = clear_names, THEN conjunct1, THEN mp, OF b]
  note t2 = C8_malformed_rows [where rows = ?G and st = clear_names,
      THEN conjunct2, THEN conjunct1, THEN mp, OF g]
  note t3 = C8_malformed_rows [where rows = "[]" and st = clear_names and row = ?r and line = 1 and g = "[]",
      THEN conjunct2, THEN conjunct2, THEN conjunct1, THEN mp, OF r]
  show ?thesis
    by (intro conjI lb lg r t1 t2 t3)
qed

text \<open>The claim C8 as it stands fails for an empty row, which has neither four nor
  five fields and is skipped.\<close>

theorem C8_counterexample:
  "length ([] :: string list) \<noteq> 4 \<and> length ([] :: string list) \<noteq> 5 \<and>
   read_description [[]] clear_names = Inr ([], clear_names)"
  by (simp add: read_description_def)

text \<open>
  C10. \<open>valid_name\<close> holds of every string, so \<open>name\<close> never fails and records the name
  in the four dictionaries; that includes a string such as \<open>Gen 1/P\<close>, which is not
  made of letters, digits and underscores.
\<close>

theorem C10_valid_name_vacuous:
  "valid_name nm \<and>
   name nm un sh lo st =
     Inr (st\<lparr>named := AList.update nm True (named st),
             unitd := AList.update nm un (unitd st),
             shortd := AList.update nm sh (shortd st),
             longd := AList.update nm lo (longd st)\<rparr>) \<and>
   \<not> re_name ''Gen 1/P'' \<and> valid_name ''Gen 1/P'' \<and>
   (\<exists>st'. name ''Gen 1/P'' un sh lo st = Inr st' \<and> map_of (named st') ''Gen 1/P'' = Some True)"
proof -
  have "\<not> re_name ''Gen 1/P''" by code_simp
  then show ?thesis
    by (simp add: valid_name_def name_def update_conv')
qed


theorem C10_valid_name_vacuous_witness:
  "valid_name ''Gen 1/P'' \<and>
   name ''Gen 1/P'' ''kW'' ''Power'' ''Real power'' clear_names =
     Inr \<lparr>named = [(''Gen 1/P'', True)], partnamed = [], ruled = [],
          unitd = [(''Gen 1/P'', ''kW'')], shortd = [(''Gen 1/P'', ''Power'')],
          longd = [(''Gen 1/P'', ''Real power'')]\<rparr>"
  using C10_valid_name_vacuous [of "''Gen 1/P''" "''kW''" "''Power''" "''Real power''" clear_names]
  by (simp add: clear_names_def)


end
